theory Spec2Isabelle
  imports Complex_Main "HOL-Library.AList"
begin

unbundle bit_operations_syntax

section \<open>Python values shared by both modules\<close>

text \<open>
  Bytes objects and the contents of files are lists of characters (a \<open>char\<close> is one
  byte). Python integers are unbounded, so they are \<open>int\<close>.
\<close>

type_synonym bytes = string

datatype errno = EROFS | ENOENT | EIO

text \<open>
  The exceptions the two modules can raise. \<open>PyException\<close> is a plain
  \<^verbatim>\<open>raise Exception(msg)\<close>; \<open>FuseOSError\<close> is \<^verbatim>\<open>fuse.FuseOSError(errno)\<close>.
\<close>

datatype error =
    AssertionError
  | IndexError
  | AttributeError
  | TypeError
  | ValueError
  | OverflowError
  | FileNotFoundError
  | OSError
  | ReadError
  | UnicodeDecodeError
  | PyException string
  | FuseOSError errno

text \<open>
  List indexing as Python does it: a negative index counts from the end, an index out
  of range raises \<open>IndexError\<close>.
\<close>

definition py_index :: "'a list \<Rightarrow> int \<Rightarrow> error + 'a" where
  "py_index xs i =
     (if 0 \<le> i \<and> i < int (length xs) then Inr (xs ! nat i)
      else if i < 0 \<and> - int (length xs) \<le> i then Inr (xs ! nat (int (length xs) + i))
      else Inl IndexError)"

section \<open>JoinedFileMount.py: the joined file\<close>

subsection \<open>The files underneath\<close>

text \<open>
  The file system maps an absolute path to the contents of the regular file there. The
  paths handed to \<open>JoinedFile\<close> are taken to be absolute already, so that
  \<^verbatim>\<open>os.path.abspath\<close> leaves them as they are.

  An open binary file (the result of \<^verbatim>\<open>open(path, 'rb')\<close>) holds the bytes of the
  file, a position and whether it has been closed.
\<close>

type_synonym filesystem = "string \<rightharpoonup> bytes"

record fileobject =
  fo_data :: bytes
  fo_pos :: nat
  fo_closed :: bool

definition py_open :: "filesystem \<Rightarrow> string \<Rightarrow> error + fileobject" where
  "py_open fs path =
     (case fs path of
        None \<Rightarrow> Inl FileNotFoundError
      | Some c \<Rightarrow> Inr \<lparr>fo_data = c, fo_pos = 0, fo_closed = False\<rparr>)"

definition fo_close :: "fileobject \<Rightarrow> fileobject" where
  "fo_close f = f\<lparr>fo_closed := True\<rparr>"

text \<open>
  \<^verbatim>\<open>f.read(k)\<close> of a buffered reader: \<open>k = -1\<close> reads to the end of the file, a
  smaller \<open>k\<close> and a closed file raise \<open>ValueError\<close>, otherwise up to \<open>k\<close> bytes are
  returned and the position moves past them.
\<close>

definition fo_read :: "fileobject \<Rightarrow> int \<Rightarrow> error + (fileobject \<times> bytes)" where
  "fo_read f k =
     (if fo_closed f then Inl ValueError
      else if k < - 1 then Inl ValueError
      else
        (let rest = drop (fo_pos f) (fo_data f);
             tmp = (if k = - 1 then rest else take (nat k) rest)
         in Inr (f\<lparr>fo_pos := fo_pos f + length tmp\<rparr>, tmp)))"

text \<open>\<^verbatim>\<open>f.seek(p, io.SEEK_SET)\<close>: a position past the end is allowed.\<close>

definition fo_seek :: "fileobject \<Rightarrow> int \<Rightarrow> error + fileobject" where
  "fo_seek f p =
     (if fo_closed f then Inl ValueError
      else if p < 0 then Inl OSError
      else Inr (f\<lparr>fo_pos := nat p\<rparr>))"

subsection \<open>The state of a JoinedFile\<close>

record JoinedFile =
  filePaths :: "string list"
  sizes :: "int list"
  fileobj :: "fileobject option"
  currentFile :: "int option"
  cumsizes :: "int list"
  offset :: int

definition SEEK_SET :: int where "SEEK_SET = 0"
definition SEEK_CUR :: int where "SEEK_CUR = 1"
definition SEEK_END :: int where "SEEK_END = 2"

subsection \<open>bisect.bisect_left\<close>

text \<open>
  The standard library's binary search, as \<^verbatim>\<open>bisect.py\<close> writes it:
  \<^verbatim>\<open>
  lo, hi = 0, len(a)
  while lo < hi:
      mid = (lo + hi) // 2
      if a[mid] < x: lo = mid + 1
      else: hi = mid
  return lo
  \<close>
  With \<open>hi \<le> length a\<close> every \<open>a[mid]\<close> is in range.
\<close>

function bisect_left_loop :: "int list \<Rightarrow> int \<Rightarrow> nat \<Rightarrow> nat \<Rightarrow> nat" where
  "bisect_left_loop a x lo hi =
     (if lo < hi then
        (let mid = (lo + hi) div 2
         in if a ! mid < x then bisect_left_loop a x (mid + 1) hi
            else bisect_left_loop a x lo mid)
      else lo)"
  by pat_completeness auto
termination
  by (relation "measure (\<lambda>(a, x, lo, hi). hi - lo)") auto

declare bisect_left_loop.simps [simp del]

definition bisect_left :: "int list \<Rightarrow> int \<Rightarrow> nat" where
  "bisect_left a x = bisect_left_loop a x 0 (length a)"

subsection \<open>JoinedFile.\_findStencil\<close>

definition findStencil :: "JoinedFile \<Rightarrow> int \<Rightarrow> error + int" where
  "findStencil self off =
     (if \<not> off \<ge> 0 then Inl AssertionError
      else
        (let i = int (bisect_left (cumsizes self) (off + 1)) - 1
         in if \<not> i \<ge> 0 then Inl AssertionError else Inr i))"

subsection \<open>JoinedFile.seek and JoinedFile.tell\<close>

text \<open>
  A method that raises leaves the object as it was at the raise, so each method returns
  the state together with its result or its exception.

  The first part of \<open>seek\<close> moves the logical offset. \<^verbatim>\<open>self.cumsizes[-1]\<close> is read
  only for \<open>SEEK_END\<close>; a \<open>whence\<close> that is none of the three leaves the offset alone.
\<close>

definition seek_move :: "JoinedFile \<Rightarrow> int \<Rightarrow> int \<Rightarrow> error + JoinedFile" where
  "seek_move self off whence =
     (if whence = SEEK_CUR then Inr (self\<lparr>offset := offset self + off\<rparr>)
      else if whence = SEEK_END then
        (case py_index (cumsizes self) (- 1) of
           Inl e \<Rightarrow> Inl e
         | Inr endpos \<Rightarrow> Inr (self\<lparr>offset := endpos + off\<rparr>))
      else if whence = SEEK_SET then Inr (self\<lparr>offset := off\<rparr>)
      else Inr self)"

text \<open>
  \<^verbatim>\<open>
  if i != self.currentFile:
      if self.fileobj is not None and not self.fileobj.closed:
          self.fileobj.close()
      self.fileobj = open( self.filePaths[i], 'rb' )
  \<close>
\<close>

definition seek_reopen :: "filesystem \<Rightarrow> JoinedFile \<Rightarrow> int \<Rightarrow> JoinedFile \<times> (error + unit)" where
  "seek_reopen fs self i =
     (if Some i \<noteq> currentFile self then
        (let s1 = (case fileobj self of
                     None \<Rightarrow> self
                   | Some f \<Rightarrow>
                       if \<not> fo_closed f then self\<lparr>fileobj := Some (fo_close f)\<rparr> else self)
         in case py_index (filePaths s1) i of
              Inl e \<Rightarrow> (s1, Inl e)
            | Inr path \<Rightarrow>
                (case py_open fs path of
                   Inl e \<Rightarrow> (s1, Inl e)
                 | Inr f \<Rightarrow> (s1\<lparr>fileobj := Some f\<rparr>, Inr ())))
      else (self, Inr ()))"

text \<open>The part of \<open>seek\<close> after the early return: find the part, open it, seek in it.\<close>

definition seek_part :: "filesystem \<Rightarrow> JoinedFile \<Rightarrow> JoinedFile \<times> (error + int)" where
  "seek_part fs self =
     (case findStencil self (offset self) of
        Inl e \<Rightarrow> (self, Inl e)
      | Inr i \<Rightarrow>
          (case py_index (cumsizes self) i of
             Inl e \<Rightarrow> (self, Inl e)
           | Inr c \<Rightarrow>
               (let offsetInsideFile = offset self - c
                in if \<not> offsetInsideFile \<ge> 0 then (self, Inl AssertionError)
                   else
                     (case py_index (sizes self) i of
                        Inl e \<Rightarrow> (self, Inl e)
                      | Inr sz \<Rightarrow>
                          if \<not> offsetInsideFile < sz then (self, Inl AssertionError)
                          else
                            (case seek_reopen fs self i of
                               (s1, Inl e) \<Rightarrow> (s1, Inl e)
                             | (s1, Inr u) \<Rightarrow>
                                 (case fileobj s1 of
                                    None \<Rightarrow> (s1, Inl AttributeError)
                                  | Some f \<Rightarrow>
                                      (case fo_seek f offsetInsideFile of
                                         Inl e \<Rightarrow> (s1, Inl e)
                                       | Inr f' \<Rightarrow>
                                           (s1\<lparr>fileobj := Some f'\<rparr>, Inr (offset s1)))))))))"

definition seek :: "filesystem \<Rightarrow> JoinedFile \<Rightarrow> int \<Rightarrow> int \<Rightarrow> JoinedFile \<times> (error + int)" where
  "seek fs self off whence =
     (case seek_move self off whence of
        Inl e \<Rightarrow> (self, Inl e)
      | Inr s1 \<Rightarrow>
          if offset s1 < 0 then
            (s1, Inl (PyException ''Trying to seek before the start of the file!''))
          else
            (case py_index (cumsizes s1) (- 1) of
               Inl e \<Rightarrow> (s1, Inl e)
             | Inr endpos \<Rightarrow>
                 if offset s1 \<ge> endpos then (s1, Inr (offset s1))
                 else seek_part fs s1))"

definition tell :: "JoinedFile \<Rightarrow> int" where
  "tell self = offset self"

subsection \<open>JoinedFile.read\<close>

text \<open>
  The loop of \<open>read\<close>, with the loop variables \<open>size\<close> (here \<open>sz\<close>), \<open>i\<close> and \<open>result\<close>
  as arguments:
  \<^verbatim>\<open>
  while size > 0 and i < len( self.sizes ):
      readableSize = min( size, self.sizes[i] - ( self.offset - self.cumsizes[i] ) )
      if readableSize == 0:
          i += 1
          if i >= len( self.filePaths ):
              break
          self.fileobj.close()
          self.fileobj = open( self.filePaths[i], 'rb' )
      else:
          tmp = self.fileobj.read( readableSize )
          self.offset += len( tmp )
          result += tmp
          size -= readableSize
  return result
  \<close>
  Nothing in the loop itself bounds the number of rounds (a \<open>readableSize\<close> of \<open>-1\<close>
  makes \<open>size\<close> grow), so the loop is a partial function: \<open>None\<close> is a loop that runs
  forever.
\<close>

partial_function (option) read_loop ::
  "filesystem \<Rightarrow> JoinedFile \<Rightarrow> int \<Rightarrow> int \<Rightarrow> bytes \<Rightarrow> (JoinedFile \<times> (error + bytes)) option"
where
  "read_loop fs self sz i result =
     (if sz > 0 \<and> i < int (length (sizes self)) then
        (case py_index (sizes self) i of
           Inl e \<Rightarrow> Some (self, Inl e)
         | Inr partSize \<Rightarrow>
             (case py_index (cumsizes self) i of
                Inl e \<Rightarrow> Some (self, Inl e)
              | Inr c \<Rightarrow>
                  (let readableSize = min sz (partSize - (offset self - c))
                   in if readableSize = 0 then
                        (if i + 1 \<ge> int (length (filePaths self)) then Some (self, Inr result)
                         else
                           (case fileobj self of
                              None \<Rightarrow> Some (self, Inl AttributeError)
                            | Some f \<Rightarrow>
                                (let s1 = self\<lparr>fileobj := Some (fo_close f)\<rparr>
                                 in case py_index (filePaths s1) (i + 1) of
                                      Inl e \<Rightarrow> Some (s1, Inl e)
                                    | Inr path \<Rightarrow>
                                        (case py_open fs path of
                                           Inl e \<Rightarrow> Some (s1, Inl e)
                                         | Inr f' \<Rightarrow>
                                             read_loop fs (s1\<lparr>fileobj := Some f'\<rparr>)
                                               sz (i + 1) result))))
                      else
                        (case fileobj self of
                           None \<Rightarrow> Some (self, Inl AttributeError)
                         | Some f \<Rightarrow>
                             (case fo_read f readableSize of
                                Inl e \<Rightarrow> Some (self, Inl e)
                              | Inr (f', tmp) \<Rightarrow>
                                  read_loop fs
                                    (self\<lparr>fileobj := Some f',
                                           offset := offset self + int (length tmp)\<rparr>)
                                    (sz - readableSize) i (result @ tmp))))))
      else Some (self, Inr result))"

declare read_loop.simps [code]

definition read :: "filesystem \<Rightarrow> JoinedFile \<Rightarrow> int \<Rightarrow> (JoinedFile \<times> (error + bytes)) option" where
  "read fs self n =
     (case (if n = - 1 then
              (case py_index (cumsizes self) (- 1) of
                 Inl e \<Rightarrow> Inl e
               | Inr endpos \<Rightarrow> Inr (endpos - offset self))
            else Inr n) of
        Inl e \<Rightarrow> Some (self, Inl e)
      | Inr sz \<Rightarrow>
          (case findStencil self (offset self) of
             Inl e \<Rightarrow> Some (self, Inl e)
           | Inr i \<Rightarrow> read_loop fs self sz i []))"

subsection \<open>JoinedFile.close\<close>

definition close :: "JoinedFile \<Rightarrow> JoinedFile \<times> (error + unit)" where
  "close self =
     (case fileobj self of
        None \<Rightarrow> (self, Inl AttributeError)
      | Some f \<Rightarrow> (self\<lparr>fileobj := None, currentFile := None\<rparr>, Inr ()))"

subsection \<open>JoinedFile.\_\_init\_\_\<close>

text \<open>
  The first loop keeps the paths of the parts that are not empty, with their sizes; a
  path that is no file raises.
\<close>

fun init_parts ::
  "filesystem \<Rightarrow> string list \<Rightarrow> string list \<Rightarrow> int list \<Rightarrow> error + (string list \<times> int list)"
where
  "init_parts fs [] fps szs = Inr (fps, szs)"
| "init_parts fs (path # rest) fps szs =
     (case fs path of
        None \<Rightarrow> Inl (PyException (''File '' @ path @ '' does not exist!''))
      | Some c \<Rightarrow>
          (let sz = int (length c)
           in if sz > 0 then init_parts fs rest (fps @ [path]) (szs @ [sz])
              else init_parts fs rest fps szs))"

text \<open>
  \<^verbatim>\<open>
  self.cumsizes = [ 0 ]
  for size in self.sizes:
      assert size > 0
      self.cumsizes.append( self.cumsizes[-1] + size )
  \<close>
\<close>

fun init_cumsizes :: "int list \<Rightarrow> int list \<Rightarrow> error + int list" where
  "init_cumsizes cs [] = Inr cs"
| "init_cumsizes cs (sz # rest) =
     (if \<not> sz > 0 then Inl AssertionError
      else
        (case py_index cs (- 1) of
           Inl e \<Rightarrow> Inl e
         | Inr l \<Rightarrow> init_cumsizes (cs @ [l + sz]) rest))"

text \<open>
  The constructor. The attribute \<open>offset\<close> does not exist before the call of
  \<open>seek(0)\<close>, which sets it without reading it; the record holds 0 until then.
\<close>

definition JoinedFile_init :: "filesystem \<Rightarrow> string list \<Rightarrow> error + JoinedFile" where
  "JoinedFile_init fs paths =
     (case init_parts fs paths [] [] of
        Inl e \<Rightarrow> Inl e
      | Inr (fps, szs) \<Rightarrow>
          (case init_cumsizes [0] szs of
             Inl e \<Rightarrow> Inl e
           | Inr cs \<Rightarrow>
               (case seek fs
                       \<lparr>filePaths = fps, sizes = szs, fileobj = None, currentFile = None,
                        cumsizes = cs, offset = 0\<rparr>
                       0 SEEK_SET of
                  (s, Inl e) \<Rightarrow> Inl e
                | (s, Inr p) \<Rightarrow> Inr s)))"

subsection \<open>Prefix sums\<close>

text \<open>
  The running sums \<open>a + x\<^sub>1\<close>, \<open>a + x\<^sub>1 + x\<^sub>2\<close>, ... of a list: what the loop of the
  constructor appends to \<open>cumsizes\<close>. Used to state properties only.
\<close>

fun psums :: "int \<Rightarrow> int list \<Rightarrow> int list" where
  "psums a [] = []"
| "psums a (x # xs) = (a + x) # psums (a + x) xs"

subsection \<open>The contents of a joined file\<close>

text \<open>
  The contents of the parts, in the order of \<open>filePaths\<close>, and their concatenation, which
  is what the joined file presents.
\<close>

definition part_contents :: "filesystem \<Rightarrow> JoinedFile \<Rightarrow> bytes list" where
  "part_contents fs self = map (\<lambda>p. case fs p of None \<Rightarrow> [] | Some c \<Rightarrow> c) (filePaths self)"

definition joined_contents :: "filesystem \<Rightarrow> JoinedFile \<Rightarrow> bytes" where
  "joined_contents fs self = concat (part_contents fs self)"

text \<open>
  What the constructor establishes and no method changes: every path is a file of the
  size recorded for it, \<open>cumsizes\<close> is what the loop of the constructor computes from
  \<open>sizes\<close> (which also says that every size is positive), and \<open>currentFile\<close> is \<open>None\<close>,
  the only value the class ever assigns to it.
\<close>

definition consistent :: "filesystem \<Rightarrow> JoinedFile \<Rightarrow> bool" where
  "consistent fs self =
     (list_all2 (\<lambda>p sz. case fs p of None \<Rightarrow> False | Some c \<Rightarrow> sz = int (length c))
        (filePaths self) (sizes self) \<and>
      init_cumsizes [0] (sizes self) = Inr (cumsizes self) \<and>
      currentFile self = None)"

text \<open>
  The joined file stands in part \<open>i\<close>: the offset lies in that part or at its end, and the
  open file is that part, at the matching position.
\<close>

definition positioned :: "filesystem \<Rightarrow> JoinedFile \<Rightarrow> nat \<Rightarrow> bool" where
  "positioned fs self i =
     (i < length (sizes self) \<and>
      cumsizes self ! i \<le> offset self \<and> offset self \<le> cumsizes self ! (i + 1) \<and>
      (case fileobj self of
         None \<Rightarrow> False
       | Some f \<Rightarrow>
           fs (filePaths self ! i) = Some (fo_data f) \<and>
           int (fo_pos f) = offset self - cumsizes self ! i \<and> \<not> fo_closed f))"

section \<open>ratarmount.py: the index of a TAR archive\<close>

subsection \<open>Strings and paths\<close>

text \<open>
  \<^verbatim>\<open>s.startswith(p)\<close>, \<^verbatim>\<open>s.endswith(p)\<close>, \<^verbatim>\<open>s.split(c)\<close>, \<^verbatim>\<open>c.join(ws)\<close> and
  \<^verbatim>\<open>s.strip(c)\<close> for a single character \<open>c\<close>. A name is modelled by its UTF-8 bytes.
\<close>

definition startswith :: "string \<Rightarrow> string \<Rightarrow> bool" where
  "startswith s p = (take (length p) s = p)"

definition endswith :: "string \<Rightarrow> string \<Rightarrow> bool" where
  "endswith s p = (length p \<le> length s \<and> drop (length s - length p) s = p)"

fun py_split :: "char \<Rightarrow> string \<Rightarrow> string list" where
  "py_split c [] = [[]]"
| "py_split c (x # xs) =
     (if x = c then [] # py_split c xs
      else (case py_split c xs of [] \<Rightarrow> [[x]] | w # ws \<Rightarrow> (x # w) # ws))"

fun py_join :: "string \<Rightarrow> string list \<Rightarrow> string" where
  "py_join sep [] = []"
| "py_join sep [w] = w"
| "py_join sep (w # v # ws) = w @ sep @ py_join sep (v # ws)"

definition py_strip :: "char \<Rightarrow> string \<Rightarrow> string" where
  "py_strip c s = rev (dropWhile (\<lambda>x. x = c) (rev (dropWhile (\<lambda>x. x = c) s)))"

text \<open>
  \<^verbatim>\<open>os.path.normpath\<close> of \<^verbatim>\<open>posixpath.py\<close>. The loop over the components:
  \<^verbatim>\<open>
  for comp in comps:
      if comp in ('', '.'):
          continue
      if (comp != '..' or (not initial_slashes and not new_comps) or
           (new_comps and new_comps[-1] == '..')):
          new_comps.append(comp)
      elif new_comps:
          new_comps.pop()
  \<close>
\<close>

fun normpath_comps :: "bool \<Rightarrow> string list \<Rightarrow> string list \<Rightarrow> string list" where
  "normpath_comps initial_slashes [] new_comps = new_comps"
| "normpath_comps initial_slashes (c # comps) new_comps =
     (if c = [] \<or> c = ''.'' then normpath_comps initial_slashes comps new_comps
      else if \<not> (c = ''..'' \<and> (initial_slashes \<or> new_comps \<noteq> []) \<and>
                   (new_comps = [] \<or> last new_comps \<noteq> ''..''))
        then normpath_comps initial_slashes comps (new_comps @ [c])
      else if new_comps \<noteq> [] then normpath_comps initial_slashes comps (butlast new_comps)
      else normpath_comps initial_slashes comps new_comps)"

definition normpath :: "string \<Rightarrow> string" where
  "normpath path =
     (if path = [] then ''.''
      else
        (let initial_slashes =
               (if startswith path ''/'' then
                  (if startswith path ''//'' \<and> \<not> startswith path ''///'' then 2 else 1)
                else (0::nat));
             comps = normpath_comps (initial_slashes \<noteq> 0) (py_split CHR ''/'' path) [];
             p = replicate initial_slashes CHR ''/'' @ py_join ''/'' comps
         in if p = [] then ''.'' else p))"

subsection \<open>FileInfo and the file index\<close>

text \<open>
  A Python number that is an \<open>int\<close> or a \<open>float\<close>. A finite float is the rational number
  it stands for; the other floats are the two infinities and \<open>nan\<close>. \<^verbatim>\<open>tarfile\<close> gives the
  \<open>mtime\<close> of a member as an \<open>int\<close> from a plain header and as a \<open>float\<close>, which can be
  any of these, from a pax header.
\<close>

datatype number = Integer int | Finite rat | Infinity | MinusInfinity | NotANumber

text \<open>
  \<^verbatim>\<open>FileInfo = namedtuple( "FileInfo", "offset size mtime mode type linkname uid gid istar" )\<close>.
  The fields carry the prefix \<open>fi_\<close>. \<open>type\<close> is the one type byte of the TAR header, a
  bytes object and never equal to a \<open>str\<close>.
\<close>

record FileInfo =
  fi_offset :: int
  fi_size :: int
  fi_mtime :: number
  fi_mode :: int
  fi_type :: char
  fi_linkname :: string
  fi_uid :: int
  fi_gid :: int
  fi_istar :: bool

text \<open>
  \<open>fileIndex\<close> is a dictionary whose values are \<open>FileInfo\<close> tuples and dictionaries of
  the same kind. A dictionary is the list of its items in insertion order;
  \<^verbatim>\<open>d[k] = v\<close> and \<^verbatim>\<open>d.update({k: v})\<close> are \<^const>\<open>AList.update\<close>, which replaces the value
  of a key in place and appends a new key.
\<close>

datatype node = File FileInfo | Dir "(string \<times> node) list"

text \<open>The constants of \<^verbatim>\<open>stat\<close> and \<^verbatim>\<open>tarfile\<close> that the module uses.\<close>

definition S_IFDIR :: int where "S_IFDIR = 16384"
definition S_IFREG :: int where "S_IFREG = 32768"
definition S_IFLNK :: int where "S_IFLNK = 40960"
definition S_IFCHR :: int where "S_IFCHR = 8192"
definition S_IFBLK :: int where "S_IFBLK = 24576"
definition S_IFIFO :: int where "S_IFIFO = 4096"
definition S_IRUSR :: int where "S_IRUSR = 256"
definition S_IWUSR :: int where "S_IWUSR = 128"
definition S_IXUSR :: int where "S_IXUSR = 64"
definition S_IRGRP :: int where "S_IRGRP = 32"
definition S_IWGRP :: int where "S_IWGRP = 16"
definition S_IXGRP :: int where "S_IXGRP = 8"
definition S_IROTH :: int where "S_IROTH = 4"
definition S_IWOTH :: int where "S_IWOTH = 2"
definition S_IXOTH :: int where "S_IXOTH = 1"

definition REGTYPE :: char where "REGTYPE = CHR ''0''"
definition AREGTYPE :: char where "AREGTYPE = CHR 0x00"
definition LNKTYPE :: char where "LNKTYPE = CHR ''1''"
definition SYMTYPE :: char where "SYMTYPE = CHR ''2''"
definition CHRTYPE :: char where "CHRTYPE = CHR ''3''"
definition BLKTYPE :: char where "BLKTYPE = CHR ''4''"
definition DIRTYPE :: char where "DIRTYPE = CHR ''5''"
definition FIFOTYPE :: char where "FIFOTYPE = CHR ''6''"
definition CONTTYPE :: char where "CONTTYPE = CHR ''7''"
definition GNUTYPE_SPARSE :: char where "GNUTYPE_SPARSE = CHR ''S''"

subsection \<open>IndexedTar.getFileInfo\<close>

text \<open>
  The loop that goes down the hierarchy:
  \<^verbatim>\<open>
  for name in os.path.normpath( path ).split( os.sep ):
      if not name:
          continue
      if not name in p:
          return
      p = p[name]
  \<close>
  When \<open>p\<close> is a dictionary, \<^verbatim>\<open>name in p\<close> asks for a key. When \<open>p\<close> is a \<open>FileInfo\<close>, a
  tuple, it asks whether \<open>name\<close> equals one of the nine fields; \<open>linkname\<close> is the only
  \<open>str\<close> among them. If it does, \<^verbatim>\<open>p[name]\<close> indexes a tuple by a string and raises
  \<open>TypeError\<close>. The result \<open>Inr None\<close> is the \<^verbatim>\<open>return\<close> of \<open>None\<close>.
\<close>

fun getFileInfo_loop :: "node \<Rightarrow> string list \<Rightarrow> error + node option" where
  "getFileInfo_loop p [] = Inr (Some p)"
| "getFileInfo_loop p (name # names) =
     (if name = [] then getFileInfo_loop p names
      else
        (case p of
           Dir items \<Rightarrow>
             (case map_of items name of
                None \<Rightarrow> Inr None
              | Some q \<Rightarrow> getFileInfo_loop q names)
         | File fi \<Rightarrow>
             if name = fi_linkname fi then Inl TypeError else Inr None))"

text \<open>
  \<open>repackDeserializedNamedTuple\<close> rebuilds a \<open>FileInfo\<close> from a list, or from a dictionary
  of nine items whose \<open>uid\<close> is an integer. A \<^typ>\<open>node\<close> is neither, so the function
  returns its argument and does not appear below.
\<close>

definition getFileInfo :: "node \<Rightarrow> string \<Rightarrow> bool \<Rightarrow> error + node option" where
  "getFileInfo fileIndex path listDir =
     (case getFileInfo_loop fileIndex (py_split CHR ''/'' (normpath path)) of
        Inl e \<Rightarrow> Inl e
      | Inr None \<Rightarrow> Inr None
      | Inr (Some (File fi)) \<Rightarrow> Inr (Some (File fi))
      | Inr (Some (Dir items)) \<Rightarrow>
          if \<not> listDir then
            (case map_of items ''.'' of
               Some q \<Rightarrow> Inr (Some q)
             | None \<Rightarrow>
                 Inr (Some (File
                   \<lparr>fi_offset = 0, fi_size = 1, fi_mtime = Integer 0, fi_mode = 365 OR S_IFDIR,
                    fi_type = DIRTYPE, fi_linkname = [], fi_uid = 0, fi_gid = 0,
                    fi_istar = False\<rparr>)))
          else Inr (Some (Dir items)))"

definition isDir :: "node \<Rightarrow> string \<Rightarrow> error + bool" where
  "isDir fileIndex path =
     (case getFileInfo fileIndex path True of
        Inl e \<Rightarrow> Inl e
      | Inr (Some (Dir items)) \<Rightarrow> Inr True
      | Inr r \<Rightarrow> Inr False)"

definition exists_path :: "node \<Rightarrow> string \<Rightarrow> error + bool" where
  "exists_path fileIndex path0 =
     (let path = normpath path0
      in case isDir fileIndex path of
           Inl e \<Rightarrow> Inl e
         | Inr True \<Rightarrow> Inr True
         | Inr False \<Rightarrow>
             (case getFileInfo fileIndex path False of
                Inl e \<Rightarrow> Inl e
              | Inr (Some (File fi)) \<Rightarrow> Inr True
              | Inr r \<Rightarrow> Inr False))"

subsection \<open>IndexedTar.setFileInfo and IndexedTar.setDirInfo\<close>

text \<open>
  Both methods go down \<open>pathHierarchy[:-1]\<close>, creating missing directories, and then put a
  value under \<open>pathHierarchy[-1]\<close> in the dictionary they reached:
  \<^verbatim>\<open>
  for name in pathHierarchy[:-1]:
      if not name:
          continue
      assert( isinstance( p, dict ) )
      p = p.setdefault( name, {} )
  p.update( { pathHierarchy[-1] : value } )
  \<close>
  The dictionaries are changed in place; here each level returns its new dictionary. A
  \<open>FileInfo\<close> on the way fails the assertion, and a \<open>FileInfo\<close> at the end has no \<open>update\<close>.
\<close>

fun set_in :: "node \<Rightarrow> string list \<Rightarrow> string \<Rightarrow> node \<Rightarrow> error + node" where
  "set_in p [] final v =
     (case p of
        Dir items \<Rightarrow> Inr (Dir (AList.update final v items))
      | File fi \<Rightarrow> Inl AttributeError)"
| "set_in p (name # names) final v =
     (if name = [] then set_in p names final v
      else
        (case p of
           File fi \<Rightarrow> Inl AssertionError
         | Dir items \<Rightarrow>
             (case map_of items name of
                None \<Rightarrow>
                  (case set_in (Dir []) names final v of
                     Inl e \<Rightarrow> Inl e
                   | Inr q \<Rightarrow> Inr (Dir (items @ [(name, q)])))
              | Some child \<Rightarrow>
                  (case set_in child names final v of
                     Inl e \<Rightarrow> Inl e
                   | Inr q \<Rightarrow> Inr (Dir (AList.update name q items))))))"

definition setFileInfo :: "node \<Rightarrow> string \<Rightarrow> FileInfo \<Rightarrow> error + node" where
  "setFileInfo fileIndex path fileInfo =
     (let pathHierarchy = py_split CHR ''/'' (normpath path)
      in if length pathHierarchy = 0 then Inr fileIndex
         else set_in fileIndex (butlast pathHierarchy) (last pathHierarchy) (File fileInfo))"

text \<open>
  \<open>setDirInfo\<close> strips the separators from both ends of the path first, and stores
  \<open>dirContents\<close> with \<open>dirInfo\<close> put under the key \<open>'.'\<close>.
\<close>

definition setDirInfo :: "node \<Rightarrow> string \<Rightarrow> FileInfo \<Rightarrow> (string \<times> node) list \<Rightarrow> error + node" where
  "setDirInfo fileIndex path dirInfo dirContents =
     (let pathHierarchy = py_split CHR ''/'' (py_strip CHR ''/'' (normpath path))
      in if length pathHierarchy = 0 then Inr fileIndex
         else set_in fileIndex (butlast pathHierarchy) (last pathHierarchy)
                (Dir (AList.update ''.'' (File dirInfo) dirContents)))"

subsection \<open>IndexedTar.createIndex\<close>

text \<open>
  A member of the archive as \<^verbatim>\<open>tarfile\<close> yields it. \<open>ti_payload\<close> stands for what
  \<^verbatim>\<open>tarfile.open\<close> yields when it reads from the start of the member's data on: the
  members of the archive there, and no member when the data is no TAR archive. (The file
  is not at its start then, and \<^verbatim>\<open>tarfile\<close> raises \<open>ReadError\<close> for a bad first header
  only at offset 0.)
\<close>

datatype TarInfo =
  TarInfo (ti_name: string) (ti_mode: int) (ti_type: char) (ti_offset_data: int)
    (ti_size: int) (ti_mtime: number) (ti_linkname: string) (ti_uid: int) (ti_gid: int)
    (ti_payload: "TarInfo list")

definition isreg :: "TarInfo \<Rightarrow> bool" where
  "isreg t = (ti_type t \<in> set [REGTYPE, AREGTYPE, CONTTYPE, GNUTYPE_SPARSE])"

definition isfile :: "TarInfo \<Rightarrow> bool" where "isfile t = isreg t"
definition isdir :: "TarInfo \<Rightarrow> bool" where "isdir t = (ti_type t = DIRTYPE)"
definition issym :: "TarInfo \<Rightarrow> bool" where "issym t = (ti_type t = SYMTYPE)"
definition ischr :: "TarInfo \<Rightarrow> bool" where "ischr t = (ti_type t = CHRTYPE)"
definition isblk :: "TarInfo \<Rightarrow> bool" where "isblk t = (ti_type t = BLKTYPE)"
definition isfifo :: "TarInfo \<Rightarrow> bool" where "isfifo t = (ti_type t = FIFOTYPE)"

text \<open>
  The first lines of the loop body:
  \<^verbatim>\<open>
  mode = tarInfo.mode
  if tarInfo.isdir() : mode |= stat.S_IFDIR
  if tarInfo.isfile(): mode |= stat.S_IFREG
  if tarInfo.issym() : mode |= stat.S_IFLNK
  if tarInfo.ischr() : mode |= stat.S_IFCHR
  if tarInfo.isfifo(): mode |= stat.S_IFIFO
  \<close>
\<close>

definition member_mode :: "TarInfo \<Rightarrow> int" where
  "member_mode tarInfo =
     (let mode = ti_mode tarInfo;
          mode = (if isdir tarInfo then mode OR S_IFDIR else mode);
          mode = (if isfile tarInfo then mode OR S_IFREG else mode);
          mode = (if issym tarInfo then mode OR S_IFLNK else mode);
          mode = (if ischr tarInfo then mode OR S_IFCHR else mode);
          mode = (if isfifo tarInfo then mode OR S_IFIFO else mode)
      in mode)"

definition member_info :: "TarInfo \<Rightarrow> FileInfo" where
  "member_info tarInfo =
     \<lparr>fi_offset = ti_offset_data tarInfo, fi_size = ti_size tarInfo,
      fi_mtime = ti_mtime tarInfo, fi_mode = member_mode tarInfo, fi_type = ti_type tarInfo,
      fi_linkname = ti_linkname tarInfo, fi_uid = ti_uid tarInfo, fi_gid = ti_gid tarInfo,
      fi_istar = False\<rparr>"

text \<open>
  The branch that mounts a nested archive (\<open>nested\<close> is its \<open>fileIndex\<close>):
  \<^verbatim>\<open>
  extractedName = re.sub( r"\.tar$", "", path )
  if not self.exists( extractedName ):
      path = extractedName
  mountMode = ( fileInfo.mode & 0o777 ) | stat.S_IFDIR
  if mountMode & stat.S_IRUSR != 0: mountMode |= stat.S_IXUSR
  if mountMode & stat.S_IRGRP != 0: mountMode |= stat.S_IXGRP
  if mountMode & stat.S_IROTH != 0: mountMode |= stat.S_IXOTH
  fileInfo = fileInfo._replace( mode = mountMode, istar = True )
  if self.exists( path ):
      print( "[Warning]", path, "already exists in database and will be overwritten!" )
  self.setDirInfo( path, fileInfo, indexedTar.fileIndex )
  \<close>
\<close>

definition mount_mode :: "int \<Rightarrow> int" where
  "mount_mode mode =
     (let mountMode = (mode AND 511) OR S_IFDIR;
          mountMode = (if mountMode AND S_IRUSR \<noteq> 0 then mountMode OR S_IXUSR else mountMode);
          mountMode = (if mountMode AND S_IRGRP \<noteq> 0 then mountMode OR S_IXGRP else mountMode);
          mountMode = (if mountMode AND S_IROTH \<noteq> 0 then mountMode OR S_IXOTH else mountMode)
      in mountMode)"

definition mount_nested ::
  "node \<Rightarrow> string \<Rightarrow> FileInfo \<Rightarrow> (string \<times> node) list \<Rightarrow> error + node" where
  "mount_nested fileIndex path0 fileInfo0 nested =
     (let extractedName =
            (if endswith path0 ''.tar'' then take (length path0 - 4) path0 else path0)
      in case exists_path fileIndex extractedName of
           Inl e \<Rightarrow> Inl e
         | Inr found \<Rightarrow>
             (let path = (if \<not> found then extractedName else path0);
                  fileInfo = fileInfo0\<lparr>fi_mode := mount_mode (fi_mode fileInfo0),
                                      fi_istar := True\<rparr>
              in case exists_path fileIndex path of
                   Inl e \<Rightarrow> Inl e
                 | Inr warn \<Rightarrow> setDirInfo fileIndex path fileInfo nested))"

text \<open>
  The other branch, for \<open>path != '/'\<close>:
  \<^verbatim>\<open>
  if self.exists( path ):
      fileInfo = self.getFileInfo( path, listDir = False )
      if fileInfo.istar:
          self.setFileInfo( path + ".tar", fileInfo, self.getFileInfo( path, listDir = True ) )
      else:
          print( "[Warning]", path, "already exists in database and will be overwritten!" )
  if tarInfo.isdir():
      self.setDirInfo( path, fileInfo, {} )
  else:
      self.setFileInfo( path, fileInfo )
  \<close>
  \<open>setFileInfo\<close> takes a path and a \<open>FileInfo\<close>. The call with a third argument raises
  \<open>TypeError\<close> when Python binds the arguments, before the method body and after the
  arguments have been evaluated. Where the path exists, \<open>fileInfo\<close> is from then on the
  record found there, not the one of the member.
\<close>

definition store_member :: "node \<Rightarrow> TarInfo \<Rightarrow> string \<Rightarrow> FileInfo \<Rightarrow> error + node" where
  "store_member fileIndex tarInfo path fileInfo0 =
     (case exists_path fileIndex path of
        Inl e \<Rightarrow> Inl e
      | Inr found \<Rightarrow>
          (case (if found then
                   (case getFileInfo fileIndex path False of
                      Inl e \<Rightarrow> Inl e
                    | Inr None \<Rightarrow> Inl AttributeError
                    | Inr (Some (Dir items)) \<Rightarrow> Inl AttributeError
                    | Inr (Some (File fileInfo)) \<Rightarrow>
                        if fi_istar fileInfo then
                          (case getFileInfo fileIndex path True of
                             Inl e \<Rightarrow> Inl e
                           | Inr contents \<Rightarrow> Inl TypeError)
                        else Inr fileInfo)
                 else Inr fileInfo0) of
             Inl e \<Rightarrow> Inl e
           | Inr fileInfo \<Rightarrow>
               if isdir tarInfo then setDirInfo fileIndex path fileInfo []
               else setFileInfo fileIndex path fileInfo))"

text \<open>
  The loop over the members. With \<open>mountRecursively\<close>, a regular member whose name ends in
  \<open>.tar\<close> is indexed by a new \<open>IndexedTar\<close>, which is built without \<open>recursive\<close> and so does
  not mount recursively itself. \<open>indexIsLoaded\<close> is true of an index that is not empty; a
  member whose data holds no member is stored like any other file.
\<close>

fun createIndex_loop :: "bool \<Rightarrow> node \<Rightarrow> TarInfo list \<Rightarrow> error + node" where
  "createIndex_loop mountRecursively fileIndex [] = Inr fileIndex"
| "createIndex_loop mountRecursively fileIndex
     (TarInfo name mode type offset_data sz mtime linkname uid gid payload # members) =
     (let tarInfo = TarInfo name mode type offset_data sz mtime linkname uid gid payload;
          fileInfo = member_info tarInfo
      in case (if mountRecursively \<and> isfile tarInfo \<and> endswith name ''.tar'' then
                 (case createIndex_loop False (Dir []) payload of
                    Inl e \<Rightarrow> Inl e
                  | Inr nested \<Rightarrow> Inr (Some nested))
               else Inr None) of
           Inl e \<Rightarrow> Inl e
         | Inr indexedTar \<Rightarrow>
             (let path = normpath (''/'' @ name)
              in case (case indexedTar of
                         Some (Dir (item # items)) \<Rightarrow>
                           mount_nested fileIndex path fileInfo (item # items)
                       | other \<Rightarrow>
                           if path \<noteq> ''/'' then store_member fileIndex tarInfo path fileInfo
                           else Inr fileIndex) of
                   Inl e \<Rightarrow> Inl e
                 | Inr fileIndex' \<Rightarrow> createIndex_loop mountRecursively fileIndex' members))"

definition createIndex :: "bool \<Rightarrow> TarInfo list option \<Rightarrow> error + node" where
  "createIndex mountRecursively archive =
     (case archive of
        None \<Rightarrow> Inl ReadError
      | Some members \<Rightarrow> createIndex_loop mountRecursively (Dir []) members)"

subsection \<open>TarMount\<close>

text \<open>
  The callbacks read \<open>self.indexedTar.fileIndex\<close> only, so they take the index. The
  dictionary that \<open>getattr\<close> returns is a record of its six keys. \<^verbatim>\<open>int(x)\<close> cuts the
  fraction of a finite number off, towards zero; it raises \<open>OverflowError\<close> for an
  infinity and \<open>ValueError\<close> for \<open>nan\<close>.
\<close>

record stat =
  st_size :: int
  st_mtime :: int
  st_mode :: int
  st_uid :: int
  st_gid :: int
  st_nlink :: int

definition py_int :: "number \<Rightarrow> error + int" where
  "py_int x =
     (case x of
        Integer n \<Rightarrow> Inr n
      | Finite q \<Rightarrow> Inr (if 0 \<le> q then \<lfloor>q\<rfloor> else \<lceil>q\<rceil>)
      | Infinity \<Rightarrow> Inl OverflowError
      | MinusInfinity \<Rightarrow> Inl OverflowError
      | NotANumber \<Rightarrow> Inl ValueError)"

definition getattr :: "node \<Rightarrow> string \<Rightarrow> error + stat" where
  "getattr fileIndex path =
     (case getFileInfo fileIndex path False of
        Inl e \<Rightarrow> Inl e
      | Inr (Some (File fileInfo)) \<Rightarrow>
          (case py_int (fi_mtime fileInfo) of
             Inl e \<Rightarrow> Inl e
           | Inr mtime \<Rightarrow>
               Inr \<lparr>st_size = fi_size fileInfo,
                    st_mtime = mtime,
                    st_mode = fi_mode fileInfo AND NOT (S_IWUSR OR S_IWGRP OR S_IWOTH),
                    st_uid = fi_uid fileInfo, st_gid = fi_gid fileInfo, st_nlink = 2\<rparr>)
      | Inr r \<Rightarrow> Inl (FuseOSError EROFS))"

text \<open>
  \<open>readdir\<close> is a generator: the model gives the names it yields, in order, and the
  exception that ends it, if any.
  \<^verbatim>\<open>
  yield '.'
  yield '..'
  for key in self.indexedTar.getFileInfo( path, listDir = True ).keys():
      yield key
  \<close>
  \<open>None\<close> and a \<open>FileInfo\<close> have no attribute \<open>keys\<close>.
\<close>

definition readdir :: "node \<Rightarrow> string \<Rightarrow> string list \<times> error option" where
  "readdir fileIndex path =
     (case getFileInfo fileIndex path True of
        Inl e \<Rightarrow> ([''.'', ''..''], Some e)
      | Inr (Some (Dir items)) \<Rightarrow> ([''.'', ''..''] @ map fst items, None)
      | Inr r \<Rightarrow> ([''.'', ''..''], Some AttributeError))"

text \<open>
  \<^verbatim>\<open>
  pathname = fileInfo.linkname
  if pathname.startswith( "/" ):
      return os.path.relpath( pathname, self.root )
  else:
      return pathname
  \<close>
  Neither \<open>TarMount\<close> nor \<^verbatim>\<open>fuse.Operations\<close> has an attribute \<open>root\<close>, so the first branch
  raises \<open>AttributeError\<close>.
\<close>

definition readlink :: "node \<Rightarrow> string \<Rightarrow> error + string" where
  "readlink fileIndex path =
     (case getFileInfo fileIndex path False of
        Inl e \<Rightarrow> Inl e
      | Inr (Some (File fileInfo)) \<Rightarrow>
          (let pathname = fi_linkname fileInfo
           in if startswith pathname ''/'' then Inl AttributeError else Inr pathname)
      | Inr r \<Rightarrow> Inl (FuseOSError EROFS))"

subsection \<open>IndexedTar.dump and IndexedTar.load\<close>

text \<open>
  \<^verbatim>\<open>n.to_bytes( 4, byteorder = 'little' )\<close> raises \<open>OverflowError\<close> when \<open>n\<close> is negative or
  does not fit into four bytes; \<^verbatim>\<open>int.from_bytes( b, byteorder = 'little' )\<close> takes any
  number of bytes and gives a number that is not negative.
\<close>

definition to_bytes4 :: "int \<Rightarrow> error + bytes" where
  "to_bytes4 n =
     (if 0 \<le> n \<and> n < 2 ^ 32 then Inr (map (\<lambda>k. char_of (n div 256 ^ k)) [0, 1, 2, 3])
      else Inl OverflowError)"















subsection \<open>Paths and records of the specification\<close>

text \<open>
  The specification speaks of a path that is present in the tree and of the record found
  there. These three definitions are its words, to be compared with \<^const>\<open>getFileInfo\<close>:
  the name segments of a path after normalisation; the descent from a node along
  segments, where a leaf has no children; and the record of a node, which for a directory
  is the self-entry under \<open>'.'\<close> when there is one and the synthesized directory record
  otherwise. A self-entry that is itself a directory gives no record.
\<close>

definition path_names :: "string \<Rightarrow> string list" where
  "path_names path = filter (\<lambda>name. name \<noteq> []) (py_split CHR ''/'' (normpath path))"

fun lookup_node :: "node \<Rightarrow> string list \<Rightarrow> node option" where
  "lookup_node p [] = Some p"
| "lookup_node p (name # names) =
     (case p of
        File fi \<Rightarrow> None
      | Dir items \<Rightarrow>
          (case map_of items name of
             None \<Rightarrow> None
           | Some q \<Rightarrow> lookup_node q names))"

definition synthesized_dir :: FileInfo where
  "synthesized_dir =
     \<lparr>fi_offset = 0, fi_size = 1, fi_mtime = Integer 0, fi_mode = 365 OR S_IFDIR,
      fi_type = DIRTYPE, fi_linkname = [], fi_uid = 0, fi_gid = 0, fi_istar = False\<rparr>"

definition node_record :: "node \<Rightarrow> FileInfo option" where
  "node_record q =
     (case q of
        File fi \<Rightarrow> Some fi
      | Dir items \<Rightarrow>
          (case map_of items ''.'' of
             None \<Rightarrow> Some synthesized_dir
           | Some (File fi) \<Rightarrow> Some fi
           | Some (Dir sub) \<Rightarrow> None))"

text \<open>
  The numbers that have a value, and the value: the specification's \<open>mtime\<close> truncated
  to an integer is said of these.
\<close>

definition is_finite :: "number \<Rightarrow> bool" where
  "is_finite x = (case x of Integer n \<Rightarrow> True | Finite q \<Rightarrow> True | other \<Rightarrow> False)"

definition number_value :: "number \<Rightarrow> rat" where
  "number_value x = (case x of Integer n \<Rightarrow> of_int n | Finite q \<Rightarrow> q | other \<Rightarrow> 0)"

section \<open>Example inputs\<close>

subsection \<open>Joined files\<close>

text \<open>
  A joined file of two parts of two bytes each, at offset 1, and one of parts of five and
  two bytes, at its end.
\<close>

definition jf_two_parts :: JoinedFile where
  "jf_two_parts =
     \<lparr>filePaths = [''/a'', ''/b''], sizes = [2, 2],
      fileobj = Some \<lparr>fo_data = ''01'', fo_pos = 1, fo_closed = False\<rparr>,
      currentFile = None, cumsizes = [0, 2, 4], offset = 1\<rparr>"

definition jf52 :: JoinedFile where
  "jf52 =
     \<lparr>filePaths = [''/a'', ''/b''], sizes = [5, 2], fileobj = None, currentFile = None,
      cumsizes = [0, 5, 7], offset = 7\<rparr>"

text \<open>The file system of the first example: \<open>/a\<close> holds \<open>01\<close> and \<open>/b\<close> holds \<open>23\<close>.\<close>

definition fs_two :: filesystem where
  "fs_two = [''/a'' \<mapsto> ''01'', ''/b'' \<mapsto> ''23'']"

subsection \<open>Example indexes and archives\<close>

text \<open>
  An index with one symbolic link \<open>/l\<close> whose target is \<open>x\<close>, and the same with the
  absolute target \<open>/etc/passwd\<close>.
\<close>

definition link_to_x :: FileInfo where
  "link_to_x =
     \<lparr>fi_offset = 0, fi_size = 0, fi_mtime = Finite (3 / 2), fi_mode = 41471,
      fi_type = SYMTYPE, fi_linkname = ''x'', fi_uid = 1000, fi_gid = 100,
      fi_istar = False\<rparr>"

definition index_with_link :: node where
  "index_with_link = Dir [(''l'', File link_to_x)]"

definition link_absolute :: FileInfo where
  "link_absolute = link_to_x\<lparr>fi_linkname := ''/etc/passwd''\<rparr>"

definition index_with_absolute_link :: node where
  "index_with_absolute_link = Dir [(''l'', File link_absolute)]"

text \<open>The link with the modification time \<open>nan\<close>, as a pax header can give it.\<close>

definition link_without_time :: FileInfo where
  "link_without_time = link_to_x\<lparr>fi_mtime := NotANumber\<rparr>"

definition index_without_time :: node where
  "index_without_time = Dir [(''l'', File link_without_time)]"

text \<open>A block device \<open>sda\<close> with the permissions \<open>0o660\<close>.\<close>

definition block_member :: TarInfo where
  "block_member = TarInfo ''sda'' 432 BLKTYPE 0 0 (Integer 0) [] 0 6 []"

text \<open>
  An archive with the archive \<open>foo.tar\<close>, which holds the file \<open>x\<close>, followed by the
  directory \<open>foo\<close>.
\<close>

definition clash_archive :: "TarInfo list" where
  "clash_archive =
     [TarInfo ''foo.tar'' 420 REGTYPE 512 10240 (Integer 0) [] 0 0
        [TarInfo ''x'' 420 REGTYPE 1024 3 (Integer 0) [] 0 0 []],
      TarInfo ''foo'' 493 DIRTYPE 11264 0 (Integer 0) [] 0 0 []]"





section \<open>Properties of the joined file\<close>

subsection \<open>Indexing\<close>

lemma py_index_last: "cs \<noteq> [] \<Longrightarrow> py_index cs (- 1) = Inr (last cs)"
  by (cases cs rule: rev_cases) (auto simp: py_index_def nth_append)

lemma py_index_nat: "0 \<le> i \<Longrightarrow> i < int (length xs) \<Longrightarrow> py_index xs i = Inr (xs ! nat i)"
  by (simp add: py_index_def)

subsection \<open>A seek before the start of the file\<close>

lemma seek_move_target:
  assumes "cumsizes self \<noteq> []"
    and "whence = SEEK_SET \<or> whence = SEEK_CUR \<or> whence = SEEK_END"
  shows "seek_move self off whence =
           Inr (self\<lparr>offset := (if whence = SEEK_CUR then offset self + off
                                else if whence = SEEK_END then last (cumsizes self) + off
                                else off)\<rparr>)"
  using assms by (auto simp: seek_move_def py_index_last SEEK_SET_def SEEK_CUR_def SEEK_END_def)

text \<open>
  Claim C10. \<open>seek\<close> is not atomic on error. For a joined file (its \<open>cumsizes\<close> is never
  empty) and a call \<open>seek(off, whence)\<close> with one of the three \<open>whence\<close> values, let
  \<open>target\<close> be the position the call computes: \<open>offset + off\<close> for \<open>SEEK_CUR\<close>, the total
  size plus \<open>off\<close> for \<open>SEEK_END\<close>, \<open>off\<close> for \<open>SEEK_SET\<close>. When \<open>target\<close> is negative the
  call raises the exception "Trying to seek before the start of the file!", and the
  object it leaves behind has the negative \<open>target\<close> as its offset: \<open>tell()\<close> then returns
  \<open>target\<close>, not the offset from before the call.
\<close>

theorem seek_before_start_moves_offset:
  assumes "cumsizes self \<noteq> []"
    and "whence = SEEK_SET \<or> whence = SEEK_CUR \<or> whence = SEEK_END"
    and "target = (if whence = SEEK_CUR then offset self + off
                   else if whence = SEEK_END then last (cumsizes self) + off
                   else off)"
    and "target < 0"
  shows "seek fs self off whence =
           (self\<lparr>offset := target\<rparr>,
            Inl (PyException ''Trying to seek before the start of the file!'')) \<and>
         tell (fst (seek fs self off whence)) = target"
proof -
  have "seek_move self off whence = Inr (self\<lparr>offset := target\<rparr>)"
    using seek_move_target [OF assms(1,2)] assms(3) by simp
  then show ?thesis
    using assms(4) by (simp add: seek_def tell_def)
qed

theorem seek_before_start_moves_offset_witness:
  "cumsizes jf_two_parts \<noteq> [] \<and> offset jf_two_parts = 1 \<and>
   seek Map.empty jf_two_parts (- 3) SEEK_CUR =
     (jf_two_parts\<lparr>offset := - 2\<rparr>,
      Inl (PyException ''Trying to seek before the start of the file!'')) \<and>
   tell (fst (seek Map.empty jf_two_parts (- 3) SEEK_CUR)) = - 2"
proof -
  have c: "cumsizes jf_two_parts \<noteq> []" and o: "offset jf_two_parts = 1"
    by (simp_all add: jf_two_parts_def)
  have t: "- 2 = (if SEEK_CUR = SEEK_CUR then offset jf_two_parts + (- 3)
                   else if SEEK_CUR = SEEK_END then last (cumsizes jf_two_parts) + (- 3)
                   else - 3)"
    by (simp add: o)
  show ?thesis
    using seek_before_start_moves_offset [OF c _ t, of Map.empty] c o by (simp add: tell_def)
qed

subsection \<open>Part lookup\<close>

lemma init_cumsizes_psums:
  "cs \<noteq> [] \<Longrightarrow> init_cumsizes cs szs = Inr r \<Longrightarrow> r = cs @ psums (last cs) szs \<and> (\<forall>x \<in> set szs. 0 < x)"
proof (induction szs arbitrary: cs)
  case Nil
  then show ?case by simp
next
  case (Cons sz rest)
  from Cons.prems have pos: "0 < sz" by (auto split: if_splits)
  with Cons.prems have "init_cumsizes (cs @ [last cs + sz]) rest = Inr r"
    by (simp add: py_index_last)
  from Cons.IH [OF _ this] pos show ?case by simp
qed

lemma init_cumsizes_ok:
  "cs \<noteq> [] \<Longrightarrow> \<forall>x \<in> set szs. 0 < x \<Longrightarrow> init_cumsizes cs szs = Inr (cs @ psums (last cs) szs)"
  by (induction szs arbitrary: cs) (auto simp: py_index_last)

lemma length_psums [simp]: "length (psums a xs) = length xs"
  by (induction xs arbitrary: a) auto

lemma psums_nth: "k < length xs \<Longrightarrow> psums a xs ! k = a + sum_list (take (Suc k) xs)"
proof (induction xs arbitrary: a k)
  case Nil
  then show ?case by simp
next
  case (Cons x xs)
  then show ?case by (cases k) auto
qed

lemma cum_nth: "k \<le> length xs \<Longrightarrow> (a # psums a xs) ! k = a + sum_list (take k xs)"
  by (cases k) (auto simp: psums_nth)

lemma sum_list_pos_nonempty:
  "xs \<noteq> [] \<Longrightarrow> \<forall>x \<in> set xs. (0::int) < x \<Longrightarrow> 0 < sum_list xs"
proof (induction xs)
  case Nil
  then show ?case by simp
next
  case (Cons x xs)
  have x: "0 < x" using Cons.prems(2) by simp
  show ?case
  proof (cases "xs = []")
    case True
    with x show ?thesis by simp
  next
    case False
    have "0 < sum_list xs" using Cons.IH [OF False] Cons.prems(2) by simp
    with x show ?thesis by simp
  qed
qed

lemma sum_list_take_mono:
  assumes "\<forall>x \<in> set xs. (0::int) < x" "j < k" "k \<le> length xs"
  shows "sum_list (take j xs) < sum_list (take k xs)"
proof -
  have "take k xs = take j xs @ take (k - j) (drop j xs)"
    using assms by (metis le_add_diff_inverse less_imp_le_nat take_add)
  moreover have "0 < sum_list (take (k - j) (drop j xs))"
  proof (rule sum_list_pos_nonempty)
    show "take (k - j) (drop j xs) \<noteq> []" using assms by auto
    show "\<forall>x \<in> set (take (k - j) (drop j xs)). 0 < x"
      using assms(1) by (meson in_set_dropD in_set_takeD)
  qed
  ultimately show ?thesis by simp
qed

lemma bisect_left_loop_spec:
  assumes "sorted a" "lo \<le> hi" "hi \<le> length a"
    "\<forall>j<lo. a ! j < x" "\<forall>j. hi \<le> j \<and> j < length a \<longrightarrow> x \<le> a ! j"
  shows "lo \<le> bisect_left_loop a x lo hi \<and> bisect_left_loop a x lo hi \<le> hi \<and>
         (\<forall>j<bisect_left_loop a x lo hi. a ! j < x) \<and>
         (\<forall>j. bisect_left_loop a x lo hi \<le> j \<and> j < length a \<longrightarrow> x \<le> a ! j)"
  using assms
proof (induction a x lo hi rule: bisect_left_loop.induct)
  case (1 a x lo hi)
  show ?case
  proof (cases "lo < hi")
    case False
    then have "bisect_left_loop a x lo hi = lo" by (subst bisect_left_loop.simps) simp
    with False "1.prems" show ?thesis by simp
  next
    case True
    define mid where "mid = (lo + hi) div 2"
    have mid: "lo \<le> mid" "mid < hi" using True by (auto simp: mid_def)
    show ?thesis
    proof (cases "a ! mid < x")
      case lt: True
      have below: "\<forall>j<mid + 1. a ! j < x"
      proof (intro allI impI)
        fix j assume "j < mid + 1"
        then have "j \<le> mid" by simp
        moreover have "mid < length a" using mid "1.prems" by simp
        ultimately have "a ! j \<le> a ! mid" using \<open>sorted a\<close> by (simp add: sorted_nth_mono)
        with lt show "a ! j < x" by simp
      qed
      have eq: "bisect_left_loop a x lo hi = bisect_left_loop a x (mid + 1) hi"
        using True lt by (subst bisect_left_loop.simps) (simp add: mid_def Let_def)
      have "mid + 1 \<le> bisect_left_loop a x (mid + 1) hi \<and> bisect_left_loop a x (mid + 1) hi \<le> hi \<and>
         (\<forall>j<bisect_left_loop a x (mid + 1) hi. a ! j < x) \<and>
         (\<forall>j. bisect_left_loop a x (mid + 1) hi \<le> j \<and> j < length a \<longrightarrow> x \<le> a ! j)"
        using "1.IH"(1) [OF True mid_def lt "1.prems"(1) _ "1.prems"(3) below "1.prems"(5)] mid by simp
      with eq mid show ?thesis by auto
    next
      case ge: False
      have above: "\<forall>j. mid \<le> j \<and> j < length a \<longrightarrow> x \<le> a ! j"
      proof (intro allI impI)
        fix j assume "mid \<le> j \<and> j < length a"
        then have "a ! mid \<le> a ! j" using \<open>sorted a\<close> by (simp add: sorted_nth_mono)
        with ge show "x \<le> a ! j" by simp
      qed
      have eq: "bisect_left_loop a x lo hi = bisect_left_loop a x lo mid"
        using True ge by (subst bisect_left_loop.simps) (simp add: mid_def Let_def)
      have "lo \<le> bisect_left_loop a x lo mid \<and> bisect_left_loop a x lo mid \<le> mid \<and>
         (\<forall>j<bisect_left_loop a x lo mid. a ! j < x) \<and>
         (\<forall>j. bisect_left_loop a x lo mid \<le> j \<and> j < length a \<longrightarrow> x \<le> a ! j)"
        using "1.IH"(2) [OF True mid_def ge "1.prems"(1) mid(1) _ "1.prems"(4) above] mid "1.prems"(3) by simp
      with eq mid show ?thesis by auto
    qed
  qed
qed

lemma bisect_left_spec:
  assumes "sorted a"
  shows "bisect_left a x \<le> length a \<and> (\<forall>j<bisect_left a x. a ! j < x) \<and>
         (\<forall>j. bisect_left a x \<le> j \<and> j < length a \<longrightarrow> x \<le> a ! j)"
  using bisect_left_loop_spec [OF assms, of 0 "length a" x] by (simp add: bisect_left_def)

lemma sorted_psums: "\<forall>x \<in> set xs. (0::int) < x \<Longrightarrow> sorted (a # psums a xs)"
proof (induction xs arbitrary: a)
  case Nil
  then show ?case by simp
next
  case (Cons x xs)
  have s: "sorted ((a + x) # psums (a + x) xs)" using Cons by simp
  have x: "0 < x" using Cons.prems by simp
  have "\<forall>y \<in> set (psums (a + x) xs). a \<le> y"
  proof
    fix y assume "y \<in> set (psums (a + x) xs)"
    then have "a + x \<le> y" using s by simp
    with x show "a \<le> y" by simp
  qed
  with s x show ?case by simp
qed

lemma cumsizes_shape:
  assumes "init_cumsizes [0] szs = Inr cs"
  shows "cs = 0 # psums 0 szs" and "\<forall>x \<in> set szs. 0 < x"
  using init_cumsizes_psums [OF _ assms] by simp_all

lemma cumsizes_nth:
  assumes "init_cumsizes [0] szs = Inr cs" "k \<le> length szs"
  shows "cs ! k = sum_list (take k szs)"
  using cumsizes_shape(1) [OF assms(1)] cum_nth [OF assms(2), of 0] by simp

lemma findStencil_spec:
  assumes c: "init_cumsizes [0] szs = Inr (cumsizes self)" and o: "0 \<le> off"
  shows "\<exists>i. findStencil self off = Inr (int i) \<and> i \<le> length szs \<and>
             cumsizes self ! i \<le> off \<and>
             (\<forall>j. j \<le> length szs \<and> i < j \<longrightarrow> off < cumsizes self ! j)"
proof -
  let ?cs = "cumsizes self"
  have shape: "?cs = 0 # psums 0 szs" and pos: "\<forall>x \<in> set szs. 0 < x"
    using cumsizes_shape [OF c] by auto
  have len: "length ?cs = Suc (length szs)" using shape by simp
  have srt: "sorted ?cs" using sorted_psums [OF pos, of 0] shape by simp
  define r where "r = bisect_left ?cs (off + 1)"
  have r: "r \<le> length ?cs" "\<forall>j<r. ?cs ! j < off + 1"
          "\<forall>j. r \<le> j \<and> j < length ?cs \<longrightarrow> off + 1 \<le> ?cs ! j"
    using bisect_left_spec [OF srt, of "off + 1"] by (auto simp: r_def)
  have z: "?cs ! 0 = 0" using shape by simp
  have "0 < r"
  proof (rule ccontr)
    assume "\<not> 0 < r"
    then have "off + 1 \<le> ?cs ! 0" using r(3) len by simp
    with z o show False by simp
  qed
  then obtain i where i: "r = Suc i" by (cases r) auto
  have fs: "findStencil self off = Inr (int i)"
    using o i by (simp add: findStencil_def r_def [symmetric] Let_def)
  have "i \<le> length szs" using r(1) i len by simp
  moreover have "?cs ! i \<le> off" using r(2) i by auto
  moreover have "\<forall>j. j \<le> length szs \<and> i < j \<longrightarrow> off < ?cs ! j"
  proof (intro allI impI)
    fix j assume "j \<le> length szs \<and> i < j"
    then have "off + 1 \<le> ?cs ! j" using r(3) i len by auto
    then show "off < ?cs ! j" by simp
  qed
  ultimately show ?thesis using fs by blast
qed

text \<open>
  Claim C3, as the code has it. Let \<open>cumsizes\<close> be the prefix sums the constructor computes
  from the (positive) part sizes, \<open>N\<close> the number of parts, and \<open>0 \<le> off \<le> sum sizes\<close>.
  Then \<open>_findStencil(off)\<close> returns the largest index \<open>i \<le> N\<close> with
  \<open>cumsizes[i] \<le> off\<close>. When \<open>off\<close> is less than the total size, \<open>i\<close> is a part index
  (\<open>i < N\<close>) and the only one with \<open>cumsizes[i] \<le> off < cumsizes[i+1]\<close>. When \<open>off\<close> is the
  total size, the result is \<open>N\<close>, one past the last part.
\<close>

theorem findStencil_largest_index:
  assumes c: "init_cumsizes [0] (sizes self) = Inr (cumsizes self)"
    and o: "0 \<le> off" "off \<le> sum_list (sizes self)"
  shows "\<exists>i. findStencil self off = Inr (int i) \<and> i \<le> length (sizes self) \<and>
             cumsizes self ! i \<le> off \<and>
             (\<forall>j. j \<le> length (sizes self) \<and> cumsizes self ! j \<le> off \<longrightarrow> j \<le> i) \<and>
             (off < sum_list (sizes self) \<longrightarrow>
                i < length (sizes self) \<and> off < cumsizes self ! (i + 1) \<and>
                (\<forall>j. j < length (sizes self) \<and> cumsizes self ! j \<le> off \<and>
                      off < cumsizes self ! (j + 1) \<longrightarrow> j = i)) \<and>
             (off = sum_list (sizes self) \<longrightarrow> i = length (sizes self))"
proof -
  let ?cs = "cumsizes self" and ?n = "length (sizes self)"
  obtain i where i: "findStencil self off = Inr (int i)" "i \<le> ?n" "?cs ! i \<le> off"
    and above: "\<forall>j. j \<le> ?n \<and> i < j \<longrightarrow> off < ?cs ! j"
    using findStencil_spec [OF c o(1)] by blast
  have last: "?cs ! ?n = sum_list (sizes self)"
    using cumsizes_nth [OF c, of ?n] by simp
  have largest: "\<forall>j. j \<le> ?n \<and> ?cs ! j \<le> off \<longrightarrow> j \<le> i"
    using above by (meson not_le_imp_less not_less)
  have inner: "off < sum_list (sizes self) \<longrightarrow>
                i < ?n \<and> off < ?cs ! (i + 1) \<and>
                (\<forall>j. j < ?n \<and> ?cs ! j \<le> off \<and> off < ?cs ! (j + 1) \<longrightarrow> j = i)"
  proof
    assume lt: "off < sum_list (sizes self)"
    have "i \<noteq> ?n" using i(3) last lt by auto
    then have iN: "i < ?n" using i(2) by simp
    have nxt: "off < ?cs ! (i + 1)" using above iN by simp
    have uniq: "\<forall>j. j < ?n \<and> ?cs ! j \<le> off \<and> off < ?cs ! (j + 1) \<longrightarrow> j = i"
    proof (intro allI impI)
      fix j assume j: "j < ?n \<and> ?cs ! j \<le> off \<and> off < ?cs ! (j + 1)"
      then have "j \<le> i" using largest by simp
      moreover have "\<not> j < i"
      proof
        assume "j < i"
        then have "j + 1 \<le> i" by simp
        have "?cs ! (j + 1) \<le> ?cs ! i"
        proof (cases "j + 1 = i")
          case True then show ?thesis by simp
        next
          case False
          then have "j + 1 < i" using \<open>j + 1 \<le> i\<close> by simp
          then show ?thesis
            using cumsizes_nth [OF c, of "j + 1"] cumsizes_nth [OF c, of i] i(2)
              sum_list_take_mono [of "sizes self" "j + 1" i] cumsizes_shape(2) [OF c]
            by simp
        qed
        with i(3) j show False by simp
      qed
      ultimately show "j = i" by simp
    qed
    from iN nxt uniq show "i < ?n \<and> off < ?cs ! (i + 1) \<and>
        (\<forall>j. j < ?n \<and> ?cs ! j \<le> off \<and> off < ?cs ! (j + 1) \<longrightarrow> j = i)" by blast
  qed
  have atend: "off = sum_list (sizes self) \<longrightarrow> i = ?n"
  proof
    assume "off = sum_list (sizes self)"
    then have "?cs ! ?n \<le> off" using last by simp
    then have "?n \<le> i" using largest by simp
    with i(2) show "i = ?n" by simp
  qed
  show ?thesis using i largest inner atend by blast
qed

text \<open>Parts of five and two bytes: offset 7, the total size, gives index 2.\<close>

lemma findStencil_jf52: "findStencil jf52 7 = Inr 2"
  by (simp add: findStencil_def jf52_def bisect_left_def bisect_left_loop.simps Let_def)

text \<open>
  Claim C3 as stated fails at the total size. For sizes \<open>[5, 2]\<close> the prefix sums are
  \<open>[0, 5, 7]\<close>; at offset 7 the lookup returns 2, and no index \<open>i\<close> for which
  \<open>cumsizes[i+1]\<close> exists is returned with \<open>cumsizes[i] \<le> 7 < cumsizes[i+1]\<close>.
\<close>

theorem findStencil_at_total_counterexample:
  "init_cumsizes [0] (sizes jf52) = Inr (cumsizes jf52) \<and> sum_list (sizes jf52) = 7 \<and>
   findStencil jf52 7 = Inr 2 \<and>
   \<not> (\<exists>i. i + 1 < length (cumsizes jf52) \<and> findStencil jf52 7 = Inr (int i) \<and>
            cumsizes jf52 ! i \<le> 7 \<and> 7 < cumsizes jf52 ! (i + 1))"
proof -
  have a: "init_cumsizes [0] (sizes jf52) = Inr (cumsizes jf52)"
    by (simp add: jf52_def py_index_def)
  have b: "sum_list (sizes jf52) = 7" by (simp add: jf52_def)
  have d: "\<not> (\<exists>i. i + 1 < length (cumsizes jf52) \<and> findStencil jf52 7 = Inr (int i) \<and>
            cumsizes jf52 ! i \<le> 7 \<and> 7 < cumsizes jf52 ! (i + 1))"
  proof
    assume "\<exists>i. i + 1 < length (cumsizes jf52) \<and> findStencil jf52 7 = Inr (int i) \<and>
            cumsizes jf52 ! i \<le> 7 \<and> 7 < cumsizes jf52 ! (i + 1)"
    then obtain i where i: "i + 1 < length (cumsizes jf52)" "findStencil jf52 7 = Inr (int i)"
      by blast
    from i(2) have "i = 2" by (simp add: findStencil_jf52)
    with i(1) show False by (simp add: jf52_def)
  qed
  show ?thesis using a b d findStencil_jf52 by blast
qed

text \<open>The same file at offset 6: the lookup returns part 1, and \<open>5 \<le> 6 < 7\<close>.\<close>

theorem findStencil_largest_index_witness:
  "init_cumsizes [0] (sizes jf52) = Inr (cumsizes jf52) \<and> (0::int) \<le> 6 \<and>
   6 \<le> sum_list (sizes jf52) \<and> findStencil jf52 6 = Inr 1 \<and>
   cumsizes jf52 ! 1 \<le> 6 \<and> 6 < cumsizes jf52 ! 2"
proof -
  have a: "init_cumsizes [0] (sizes jf52) = Inr (cumsizes jf52)"
    by (simp add: jf52_def py_index_def)
  have b: "6 \<le> sum_list (sizes jf52)" by (simp add: jf52_def)
  have f: "findStencil jf52 6 = Inr 1"
    by (simp add: findStencil_def jf52_def bisect_left_def bisect_left_loop.simps Let_def)
  obtain i where "findStencil jf52 6 = Inr (int i)" "cumsizes jf52 ! i \<le> 6"
    using findStencil_largest_index [OF a _ b] by auto
  then have "cumsizes jf52 ! 1 \<le> 6" using f by simp
  moreover have "6 < cumsizes jf52 ! 2" by (simp add: jf52_def)
  ultimately show ?thesis using a b f by simp
qed

subsection \<open>Reading after a seek\<close>

lemma consistent_lengths:
  assumes "consistent fs self"
  shows "length (filePaths self) = length (sizes self)"
    and "length (part_contents fs self) = length (sizes self)"
    and "length (cumsizes self) = length (sizes self) + 1"
proof -
  show a: "length (filePaths self) = length (sizes self)"
    using assms by (auto simp: consistent_def dest: list_all2_lengthD)
  show "length (part_contents fs self) = length (sizes self)"
    using a by (simp add: part_contents_def)
  have "init_cumsizes [0] (sizes self) = Inr (cumsizes self)"
    using assms by (simp add: consistent_def)
  from cumsizes_shape(1) [OF this] show "length (cumsizes self) = length (sizes self) + 1"
    by simp
qed

lemma consistent_part:
  assumes "consistent fs self" and "k < length (sizes self)"
  shows "fs (filePaths self ! k) = Some (part_contents fs self ! k)"
    and "sizes self ! k = int (length (part_contents fs self ! k))"
    and "0 < sizes self ! k"
proof -
  have l: "list_all2 (\<lambda>p sz. case fs p of None \<Rightarrow> False | Some c \<Rightarrow> sz = int (length c))
        (filePaths self) (sizes self)"
    using assms(1) by (simp add: consistent_def)
  have k: "k < length (filePaths self)"
    using consistent_lengths(1) [OF assms(1)] assms(2) by simp
  from list_all2_nthD [OF l k]
  obtain c where c: "fs (filePaths self ! k) = Some c" "sizes self ! k = int (length c)"
    by (auto split: option.splits)
  have "part_contents fs self ! k = c"
    using k c by (simp add: part_contents_def)
  with c show "fs (filePaths self ! k) = Some (part_contents fs self ! k)"
    and "sizes self ! k = int (length (part_contents fs self ! k))" by simp_all
  have "init_cumsizes [0] (sizes self) = Inr (cumsizes self)"
    using assms(1) by (simp add: consistent_def)
  from cumsizes_shape(2) [OF this] assms(2) show "0 < sizes self ! k"
    by simp
qed

lemma sizes_parts:
  assumes "consistent fs self"
  shows "sizes self = map (\<lambda>c. int (length c)) (part_contents fs self)"
  using consistent_lengths(2) [OF assms] consistent_part(2) [OF assms]
  by (intro nth_equalityI) simp_all

lemma int_length_concat: "int (length (concat xs)) = sum_list (map (\<lambda>c. int (length c)) xs)"
  by (induction xs) simp_all

lemma cumsizes_parts:
  assumes "consistent fs self" and "k \<le> length (sizes self)"
  shows "cumsizes self ! k = int (length (concat (take k (part_contents fs self))))"
proof -
  have "init_cumsizes [0] (sizes self) = Inr (cumsizes self)"
    using assms(1) by (simp add: consistent_def)
  from cumsizes_nth [OF this assms(2)]
  have "cumsizes self ! k = sum_list (take k (map (\<lambda>c. int (length c)) (part_contents fs self)))"
    using sizes_parts [OF assms(1)] by simp
  then show ?thesis by (simp add: take_map int_length_concat)
qed

lemma cumsizes_total:
  assumes "consistent fs self"
  shows "cumsizes self ! length (sizes self) = int (length (joined_contents fs self))"
    and "last (cumsizes self) = int (length (joined_contents fs self))"
    and "cumsizes self \<noteq> []"
proof -
  show a: "cumsizes self ! length (sizes self) = int (length (joined_contents fs self))"
    using cumsizes_parts [OF assms, of "length (sizes self)"] consistent_lengths(2) [OF assms]
    by (simp add: joined_contents_def)
  show b: "cumsizes self \<noteq> []"
    using consistent_lengths(3) [OF assms] by auto
  show "last (cumsizes self) = int (length (joined_contents fs self))"
    using a b consistent_lengths(3) [OF assms] by (simp add: last_conv_nth)
qed

lemma cumsizes_Suc:
  assumes "consistent fs self" and "k < length (sizes self)"
  shows "cumsizes self ! (k + 1) = cumsizes self ! k + sizes self ! k"
proof -
  have c: "init_cumsizes [0] (sizes self) = Inr (cumsizes self)"
    using assms(1) by (simp add: consistent_def)
  have "cumsizes self ! (k + 1) = sum_list (take (Suc k) (sizes self))"
    using cumsizes_nth [OF c, of "k + 1"] assms(2) by simp
  moreover have "cumsizes self ! k = sum_list (take k (sizes self))"
    using cumsizes_nth [OF c, of k] assms(2) by simp
  ultimately show ?thesis
    using assms(2) by (simp add: take_Suc_conv_app_nth)
qed

lemma drop_concat_part:
  assumes "i < length ps" and "j \<le> length (ps ! i)"
  shows "drop (length (concat (take i ps)) + j) (concat ps) =
           drop j (ps ! i) @ concat (drop (Suc i) ps)"
proof -
  have "ps = take i ps @ ps ! i # drop (Suc i) ps"
    using assms(1) by (rule id_take_nth_drop)
  then have "concat ps = concat (take i ps) @ ps ! i @ concat (drop (Suc i) ps)"
    by (metis concat.simps(2) concat_append)
  then show ?thesis using assms(2) by simp
qed

lemma slice_in_part:
  assumes "consistent fs self" and "positioned fs self i"
    and "fileobj self = Some f" and "0 \<le> r" and "offset self + r \<le> cumsizes self ! (i + 1)"
  shows "take (nat r) (drop (fo_pos f) (fo_data f)) =
           take (nat r) (drop (nat (offset self)) (joined_contents fs self))"
    and "length (take (nat r) (drop (fo_pos f) (fo_data f))) = nat r"
proof -
  let ?ps = "part_contents fs self"
  have i: "i < length (sizes self)" using assms(2) by (simp add: positioned_def)
  have f: "fs (filePaths self ! i) = Some (fo_data f)"
    "int (fo_pos f) = offset self - cumsizes self ! i"
    using assms(2,3) by (simp_all add: positioned_def)
  have d: "fo_data f = ?ps ! i"
    using f(1) consistent_part(1) [OF assms(1) i] by simp
  have c: "cumsizes self ! i = int (length (concat (take i ?ps)))"
    using cumsizes_parts [OF assms(1), of i] i by simp
  have n: "cumsizes self ! (i + 1) = cumsizes self ! i + int (length (?ps ! i))"
    using cumsizes_Suc [OF assms(1) i] consistent_part(2) [OF assms(1) i] by simp
  have o: "nat (offset self) = length (concat (take i ?ps)) + fo_pos f"
    using f(2) c by linarith
  have j: "fo_pos f + nat r \<le> length (?ps ! i)"
    using f(2) n assms(4,5) by linarith
  have "drop (nat (offset self)) (joined_contents fs self) =
          drop (fo_pos f) (?ps ! i) @ concat (drop (Suc i) ?ps)"
    unfolding o joined_contents_def
    using i j consistent_lengths(2) [OF assms(1)] by (intro drop_concat_part) simp_all
  then show "take (nat r) (drop (fo_pos f) (fo_data f)) =
           take (nat r) (drop (nat (offset self)) (joined_contents fs self))"
    using j d by simp
  show "length (take (nat r) (drop (fo_pos f) (fo_data f))) = nat r"
    using j d by simp
qed


lemma read_loop_done:
  "\<not> (0 < sz \<and> i < int (length (sizes self))) \<Longrightarrow> read_loop fs self sz i result = Some (self, Inr result)"
  by (auto simp: read_loop.simps [of fs self sz i result])

lemma read_loop_next:
  assumes "0 < sz" and "i < length (sizes self)"
    and "length (cumsizes self) = length (sizes self) + 1"
    and "sizes self ! i - (offset self - cumsizes self ! i) = 0"
    and "fileobj self = Some f"
  shows "read_loop fs self sz (int i) result =
           (if int i + 1 \<ge> int (length (filePaths self)) then Some (self, Inr result)
            else
              (case py_index (filePaths self) (int i + 1) of
                 Inl e \<Rightarrow> Some (self\<lparr>fileobj := Some (fo_close f)\<rparr>, Inl e)
               | Inr path \<Rightarrow>
                   (case py_open fs path of
                      Inl e \<Rightarrow> Some (self\<lparr>fileobj := Some (fo_close f)\<rparr>, Inl e)
                    | Inr f' \<Rightarrow> read_loop fs (self\<lparr>fileobj := Some f'\<rparr>) sz (int i + 1) result)))"
  using assms
  by (simp add: read_loop.simps [of fs self sz "int i" result] py_index_nat Let_def
      split: sum.splits prod.splits)

lemma read_loop_data:
  assumes "0 < sz" and "i < length (sizes self)"
    and "length (cumsizes self) = length (sizes self) + 1"
    and "r = min sz (sizes self ! i - (offset self - cumsizes self ! i))" and "r \<noteq> 0"
    and "fileobj self = Some f"
  shows "read_loop fs self sz (int i) result =
           (case fo_read f r of
              Inl e \<Rightarrow> Some (self, Inl e)
            | Inr (f', tmp) \<Rightarrow>
                read_loop fs (self\<lparr>fileobj := Some f', offset := offset self + int (length tmp)\<rparr>)
                  (sz - r) (int i) (result @ tmp))"
  using assms
  by (simp add: read_loop.simps [of fs self sz "int i" result] py_index_nat Let_def
      split: sum.splits prod.splits)


lemma consistent_update [simp]:
  "consistent fs (self\<lparr>fileobj := x\<rparr>) = consistent fs self"
  "consistent fs (self\<lparr>offset := y\<rparr>) = consistent fs self"
  "joined_contents fs (self\<lparr>fileobj := x\<rparr>) = joined_contents fs self"
  "joined_contents fs (self\<lparr>offset := y\<rparr>) = joined_contents fs self"
  by (simp_all add: consistent_def joined_contents_def part_contents_def)

lemma read_loop_slice:
  assumes "consistent fs self" and "positioned fs self i"
  shows "\<exists>s'. read_loop fs self sz (int i) result =
                Some (s', Inr (result @ take (nat sz) (drop (nat (offset self))
                                                        (joined_contents fs self)))) \<and>
              consistent fs s'"
  using assms
proof (induction "nat sz + (length (sizes self) - i)" arbitrary: self sz i result
    rule: less_induct)
  case less
  note con = less.prems(1) and pos = less.prems(2)
  let ?C = "joined_contents fs self"
  have i: "i < length (sizes self)" using pos by (simp add: positioned_def)
  have lo: "cumsizes self ! i \<le> offset self" and hi: "offset self \<le> cumsizes self ! (i + 1)"
    using pos by (simp_all add: positioned_def)
  obtain f where f: "fileobj self = Some f" "fs (filePaths self ! i) = Some (fo_data f)"
    "int (fo_pos f) = offset self - cumsizes self ! i" "\<not> fo_closed f"
    using pos by (auto simp: positioned_def split: option.splits)
  have len: "length (cumsizes self) = length (sizes self) + 1"
    by (rule consistent_lengths(3) [OF con])
  have nxt: "cumsizes self ! (i + 1) = cumsizes self ! i + sizes self ! i"
    by (rule cumsizes_Suc [OF con i])
  show ?case
  proof (cases "0 < sz")
    case False
    then show ?thesis using con by (simp add: read_loop_done)
  next
    case sz: True
    define r where "r = min sz (sizes self ! i - (offset self - cumsizes self ! i))"
    have r0: "0 \<le> r" using sz hi nxt by (simp add: r_def)
    show ?thesis
    proof (cases "r = 0")
      case True
      then have at_end: "offset self = cumsizes self ! (i + 1)"
        using sz nxt by (simp add: r_def min_def split: if_splits)
      then have z: "sizes self ! i - (offset self - cumsizes self ! i) = 0"
        using nxt by simp
      note step = read_loop_next [OF sz i len z f(1), of fs result]
      show ?thesis
      proof (cases "i + 1 < length (sizes self)")
        case False
        then have last: "i + 1 = length (sizes self)" using i by simp
        have "offset self = int (length ?C)"
          using at_end last cumsizes_total(1) [OF con] by simp
        then have "drop (nat (offset self)) ?C = []" by simp
        moreover have "read_loop fs self sz (int i) result = Some (self, Inr result)"
          using step last consistent_lengths(1) [OF con] by simp
        ultimately show ?thesis using con by simp
      next
        case more: True
        let ?path = "filePaths self ! (i + 1)"
        let ?f' = "\<lparr>fo_data = part_contents fs self ! (i + 1), fo_pos = 0, fo_closed = False\<rparr>"
        let ?s = "self\<lparr>fileobj := Some ?f'\<rparr>"
        have p: "py_index (filePaths self) (int i + 1) = Inr ?path"
          using more consistent_lengths(1) [OF con] by (simp add: py_index_def nat_add_distrib)
        have o: "py_open fs ?path = Inr ?f'"
          using consistent_part(1) [OF con more] by (simp add: py_open_def)
        have eq: "read_loop fs self sz (int i) result = read_loop fs ?s sz (int (i + 1)) result"
          using step p o more consistent_lengths(1) [OF con] by (simp add: add.commute)
        have "cumsizes self ! (i + 1 + 1) = cumsizes self ! (i + 1) + sizes self ! (i + 1)"
          by (rule cumsizes_Suc [OF con more])
        then have "offset self \<le> cumsizes self ! (i + 1 + 1)"
          using at_end consistent_part(3) [OF con more] by simp
        then have pos': "positioned fs ?s (i + 1)"
          using more at_end consistent_part(1) [OF con more] by (simp add: positioned_def)
        have con': "consistent fs ?s" using con by simp
        have "nat sz + (length (sizes ?s) - (i + 1)) < nat sz + (length (sizes self) - i)"
          using more by simp
        from less.hyps [OF this con' pos', of result] show ?thesis
          using eq by simp
      qed
    next
      case False
      then have rpos: "0 < r" using r0 by simp
      have rle: "offset self + r \<le> cumsizes self ! (i + 1)"
        using nxt by (simp add: r_def)
      let ?tmp = "take (nat r) (drop (fo_pos f) (fo_data f))"
      let ?f' = "f\<lparr>fo_pos := fo_pos f + length ?tmp\<rparr>"
      let ?s = "self\<lparr>fileobj := Some ?f', offset := offset self + int (length ?tmp)\<rparr>"
      have tmp: "?tmp = take (nat r) (drop (nat (offset self)) ?C)" and ltmp: "length ?tmp = nat r"
        using slice_in_part [OF con pos f(1) r0 rle] by simp_all
      have rd: "fo_read f r = Inr (?f', ?tmp)"
        using f(4) rpos by (simp add: fo_read_def Let_def)
      have eq: "read_loop fs self sz (int i) result =
                  read_loop fs ?s (sz - r) (int i) (result @ ?tmp)"
        using read_loop_data [OF sz i len r_def False f(1), of fs result] rd by simp
      have pos': "positioned fs ?s i"
        using i lo rle f r0 ltmp by (simp add: positioned_def)
      have con': "consistent fs ?s" using con by simp
      have "nat (sz - r) + (length (sizes ?s) - i) < nat sz + (length (sizes self) - i)"
        using rpos sz by simp
      from less.hyps [OF this con' pos', of "result @ ?tmp"]
      obtain s' where s': "read_loop fs ?s (sz - r) (int i) (result @ ?tmp) =
          Some (s', Inr ((result @ ?tmp) @ take (nat (sz - r)) (drop (nat (offset ?s)) ?C)))"
        "consistent fs s'"
        by auto
      have "r \<le> sz" by (simp add: r_def)
      then have "nat sz = nat r + nat (sz - r)" using r0 by simp
      moreover have "nat (offset ?s) = nat r + nat (offset self)"
        using ltmp lo r0 cumsizes_parts [OF con, of i] i by simp
      ultimately have "take (nat sz) (drop (nat (offset self)) ?C) =
          ?tmp @ take (nat (sz - r)) (drop (nat (offset ?s)) ?C)"
        using tmp by (simp only: take_add drop_drop)
      with s' eq show ?thesis by simp
    qed
  qed
qed


lemma findStencil_update [simp]:
  "findStencil (self\<lparr>fileobj := x\<rparr>) off = findStencil self off"
  "findStencil (self\<lparr>offset := y\<rparr>) off = findStencil self off"
  by (simp_all add: findStencil_def)

lemma findStencil_consistent:
  assumes "consistent fs self" and "0 \<le> off" and "off \<le> int (length (joined_contents fs self))"
  shows "\<exists>i. findStencil self off = Inr (int i) \<and> i \<le> length (sizes self) \<and>
             cumsizes self ! i \<le> off \<and>
             (off < int (length (joined_contents fs self)) \<longrightarrow>
                i < length (sizes self) \<and> off < cumsizes self ! (i + 1)) \<and>
             (off = int (length (joined_contents fs self)) \<longrightarrow> i = length (sizes self))"
proof -
  have c: "init_cumsizes [0] (sizes self) = Inr (cumsizes self)"
    using assms(1) by (simp add: consistent_def)
  from findStencil_spec [OF c assms(2)] obtain i where
    i: "findStencil self off = Inr (int i)" "i \<le> length (sizes self)"
      "cumsizes self ! i \<le> off"
      "\<forall>j. j \<le> length (sizes self) \<and> i < j \<longrightarrow> off < cumsizes self ! j"
    by blast
  note tot = cumsizes_total(1) [OF assms(1)]
  have a: "off < int (length (joined_contents fs self)) \<longrightarrow>
             i < length (sizes self) \<and> off < cumsizes self ! (i + 1)"
  proof
    assume lt: "off < int (length (joined_contents fs self))"
    have "i \<noteq> length (sizes self)" using i(3) lt tot by auto
    then have "i < length (sizes self)" using i(2) by simp
    moreover from this have "off < cumsizes self ! (i + 1)" using i(4) by simp
    ultimately show "i < length (sizes self) \<and> off < cumsizes self ! (i + 1)" by simp
  qed
  have b: "off = int (length (joined_contents fs self)) \<longrightarrow> i = length (sizes self)"
  proof
    assume e: "off = int (length (joined_contents fs self))"
    show "i = length (sizes self)"
    proof (rule ccontr)
      assume "i \<noteq> length (sizes self)"
      then have "i < length (sizes self)" using i(2) by simp
      then have "off < cumsizes self ! length (sizes self)" using i(4) by simp
      then show False using e tot by simp
    qed
  qed
  from i(1,2,3) a b show ?thesis by blast
qed

lemma seek_reopen_part:
  assumes "consistent fs self" and "i < length (sizes self)"
  shows "seek_reopen fs self (int i) =
           (self\<lparr>fileobj := Some \<lparr>fo_data = part_contents fs self ! i, fo_pos = 0,
                                   fo_closed = False\<rparr>\<rparr>, Inr ())"
proof -
  have cur: "currentFile self = None" using assms(1) by (simp add: consistent_def)
  have p: "py_index (filePaths self) (int i) = Inr (filePaths self ! i)"
    using assms(2) consistent_lengths(1) [OF assms(1)] by (simp add: py_index_def)
  have o: "py_open fs (filePaths self ! i) =
             Inr \<lparr>fo_data = part_contents fs self ! i, fo_pos = 0, fo_closed = False\<rparr>"
    using consistent_part(1) [OF assms] by (simp add: py_open_def)
  show ?thesis
    using cur p o by (simp add: seek_reopen_def Let_def split: option.splits)
qed

lemma seek_set_inside:
  assumes "consistent fs self" and "0 \<le> off" and "off < int (length (joined_contents fs self))"
  shows "\<exists>s i. seek fs self off SEEK_SET = (s, Inr off) \<and> consistent fs s \<and> offset s = off \<and>
               joined_contents fs s = joined_contents fs self \<and>
               findStencil s off = Inr (int i) \<and> positioned fs s i"
proof -
  let ?s1 = "self\<lparr>offset := off\<rparr>"
  have con1: "consistent fs ?s1" using assms(1) by simp
  have mv: "seek_move self off SEEK_SET = Inr ?s1"
    by (simp add: seek_move_def SEEK_SET_def SEEK_CUR_def SEEK_END_def)
  have lastc: "py_index (cumsizes ?s1) (- 1) = Inr (int (length (joined_contents fs self)))"
    using cumsizes_total(2,3) [OF assms(1)] by (simp add: py_index_last)
  have sk: "seek fs self off SEEK_SET = seek_part fs ?s1"
    using mv lastc assms(2,3) by (simp add: seek_def)
  from findStencil_consistent [OF con1, of off] assms(2,3) obtain i where
    i: "findStencil ?s1 off = Inr (int i)" "i < length (sizes self)"
      "cumsizes self ! i \<le> off" "off < cumsizes self ! (i + 1)"
    by auto
  have len: "length (cumsizes self) = length (sizes self) + 1"
    by (rule consistent_lengths(3) [OF assms(1)])
  have nxt: "cumsizes self ! (i + 1) = cumsizes self ! i + sizes self ! i"
    by (rule cumsizes_Suc [OF assms(1) i(2)])
  have pc: "py_index (cumsizes ?s1) (int i) = Inr (cumsizes self ! i)"
    using i(2) len by (simp add: py_index_def)
  have ps: "py_index (sizes ?s1) (int i) = Inr (sizes self ! i)"
    using i(2) by (simp add: py_index_def)
  let ?f = "\<lparr>fo_data = part_contents fs self ! i, fo_pos = nat (off - cumsizes self ! i),
              fo_closed = False\<rparr>"
  let ?s = "self\<lparr>offset := off, fileobj := Some ?f\<rparr>"
  have ro: "seek_reopen fs ?s1 (int i) =
           (?s1\<lparr>fileobj := Some \<lparr>fo_data = part_contents fs ?s1 ! i, fo_pos = 0,
                                   fo_closed = False\<rparr>\<rparr>, Inr ())"
    using i(2) by (intro seek_reopen_part [OF con1]) simp
  have pcs: "part_contents fs ?s1 = part_contents fs self"
    by (simp add: part_contents_def)
  have "seek_part fs ?s1 = (?s, Inr off)"
    using i(1,3,4) pc ps nxt ro pcs
    by (simp add: seek_part_def Let_def fo_seek_def)
  moreover have "positioned fs ?s i"
    using i consistent_part(1) [OF assms(1) i(2)] by (simp add: positioned_def)
  moreover have "findStencil ?s off = Inr (int i)"
    using i(1) by simp
  ultimately show ?thesis
    using sk assms(1) by (intro exI [of _ ?s] exI [of _ i]) simp
qed

lemma seek_set_end:
  assumes "consistent fs self" and "off = int (length (joined_contents fs self))"
  shows "seek fs self off SEEK_SET = (self\<lparr>offset := off\<rparr>, Inr off)"
proof -
  let ?s1 = "self\<lparr>offset := off\<rparr>"
  have mv: "seek_move self off SEEK_SET = Inr ?s1"
    by (simp add: seek_move_def SEEK_SET_def SEEK_CUR_def SEEK_END_def)
  have lastc: "py_index (cumsizes ?s1) (- 1) = Inr (int (length (joined_contents fs self)))"
    using cumsizes_total(2,3) [OF assms(1)] by (simp add: py_index_last)
  show ?thesis using mv lastc assms(2) by (simp add: seek_def)
qed

lemma read_at_end:
  assumes "consistent fs self" and "offset self = int (length (joined_contents fs self))"
  shows "read fs self n = Some (self, Inr [])"
proof -
  from findStencil_consistent [OF assms(1), of "offset self"] assms(2)
  have i: "findStencil self (offset self) = Inr (int (length (sizes self)))"
    by auto
  have lastc: "py_index (cumsizes self) (- 1) = Inr (int (length (joined_contents fs self)))"
    using cumsizes_total(2,3) [OF assms(1)] by (simp add: py_index_last)
  show ?thesis
    using i lastc by (simp add: read_def read_loop_done)
qed

lemma read_positioned:
  assumes "consistent fs self" and "positioned fs self i"
    and "findStencil self (offset self) = Inr (int i)"
  shows "n \<noteq> - 1 \<Longrightarrow> \<exists>s'. read fs self n =
           Some (s', Inr (take (nat n) (drop (nat (offset self)) (joined_contents fs self))))"
    and "\<exists>s'. read fs self (- 1) =
           Some (s', Inr (drop (nat (offset self)) (joined_contents fs self)))"
proof -
  have lastc: "py_index (cumsizes self) (- 1) = Inr (int (length (joined_contents fs self)))"
    using cumsizes_total(2,3) [OF assms(1)] by (simp add: py_index_last)
  have lo: "cumsizes self ! i \<le> offset self" using assms(2) by (simp add: positioned_def)
  have "0 \<le> cumsizes self ! i"
    using cumsizes_parts [OF assms(1), of i] assms(2) by (simp add: positioned_def)
  then have o0: "0 \<le> offset self" using lo by simp
  {
    assume n: "n \<noteq> - 1"
    from read_loop_slice [OF assms(1,2), of n "[]"]
    show "\<exists>s'. read fs self n =
           Some (s', Inr (take (nat n) (drop (nat (offset self)) (joined_contents fs self))))"
      using n assms(3) by (auto simp: read_def)
  }
  let ?sz = "int (length (joined_contents fs self)) - offset self"
  have "take (nat ?sz) (drop (nat (offset self)) (joined_contents fs self)) =
          drop (nat (offset self)) (joined_contents fs self)"
    using o0 by simp
  with read_loop_slice [OF assms(1,2), of ?sz "[]"]
  show "\<exists>s'. read fs self (- 1) =
           Some (s', Inr (drop (nat (offset self)) (joined_contents fs self)))"
    using assms(3) lastc by (auto simp: read_def)
qed

text \<open>
  C2. For a joined file whose parts are the files of the file system, with the sizes and
  prefix sums the constructor computes (\<^const>\<open>consistent\<close>; the constructor establishes
  it, see \<open>JoinedFile_init_consistent\<close> below, and no method changes it), let \<open>C\<close> be the
  concatenation of the parts. For every offset \<open>0 \<le> off \<le> |C|\<close> and every count \<open>n \<ge> 0\<close>,
  \<open>seek(off)\<close> returns \<open>off\<close>, and from the state it leaves \<open>read(n)\<close> returns the slice
  \<open>C[off:off+n]\<close>, which is shorter than \<open>n\<close> when \<open>off + n\<close> exceeds \<open>|C|\<close>, and \<open>read(-1)\<close>
  returns \<open>C[off:]\<close>. Both reads return: the loop of \<open>read\<close> ends.
\<close>

theorem seek_read_slice:
  assumes "consistent fs self"
    and "0 \<le> off" and "off \<le> int (length (joined_contents fs self))" and "0 \<le> n"
  shows "\<exists>s s' s''. seek fs self off SEEK_SET = (s, Inr off) \<and>
           read fs s n = Some (s', Inr (take (nat n) (drop (nat off) (joined_contents fs self)))) \<and>
           read fs s (- 1) = Some (s'', Inr (drop (nat off) (joined_contents fs self)))"
proof (cases "off < int (length (joined_contents fs self))")
  case True
  from seek_set_inside [OF assms(1,2) True] obtain s i where
    s: "seek fs self off SEEK_SET = (s, Inr off)" "consistent fs s" "offset s = off"
      "joined_contents fs s = joined_contents fs self"
      "findStencil s off = Inr (int i)" "positioned fs s i"
    by blast
  have f: "findStencil s (offset s) = Inr (int i)" using s(3,5) by simp
  have "n \<noteq> - 1" using assms(4) by simp
  from read_positioned(1) [OF s(2,6) f this] read_positioned(2) [OF s(2,6) f] s(1,3,4)
  show ?thesis by auto
next
  case False
  then have e: "off = int (length (joined_contents fs self))" using assms(3) by simp
  let ?s = "self\<lparr>offset := off\<rparr>"
  have con: "consistent fs ?s" using assms(1) by simp
  have o: "offset ?s = int (length (joined_contents fs ?s))" using e by simp
  have "seek fs self off SEEK_SET = (?s, Inr off)"
    by (rule seek_set_end [OF assms(1) e])
  moreover have "read fs ?s n = Some (?s, Inr [])" "read fs ?s (- 1) = Some (?s, Inr [])"
    using read_at_end [OF con o] by simp_all
  ultimately show ?thesis using e by simp
qed

subsection \<open>The constructor\<close>

lemma init_parts_consistent:
  assumes "init_parts fs paths fps szs = Inr (fps', szs')"
    and "list_all2 (\<lambda>p sz. case fs p of None \<Rightarrow> False | Some c \<Rightarrow> sz = int (length c)) fps szs"
  shows "list_all2 (\<lambda>p sz. case fs p of None \<Rightarrow> False | Some c \<Rightarrow> sz = int (length c)) fps' szs'"
  using assms
proof (induction paths arbitrary: fps szs)
  case Nil
  then show ?case by simp
next
  case (Cons path rest)
  from Cons.prems(1) obtain c where c: "fs path = Some c"
    by (auto split: option.splits)
  show ?case
  proof (cases "0 < int (length c)")
    case True
    with Cons.prems(1) c have "init_parts fs rest (fps @ [path]) (szs @ [int (length c)]) = Inr (fps', szs')"
      by (simp add: Let_def)
    moreover have "list_all2 (\<lambda>p sz. case fs p of None \<Rightarrow> False | Some c \<Rightarrow> sz = int (length c))
        (fps @ [path]) (szs @ [int (length c)])"
      using Cons.prems(2) c by (simp add: list_all2_appendI)
    ultimately show ?thesis by (rule Cons.IH)
  next
    case False
    with Cons.prems(1) c have "init_parts fs rest fps szs = Inr (fps', szs')"
      by (simp add: Let_def)
    then show ?thesis using Cons.prems(2) by (rule Cons.IH)
  qed
qed

lemma init_parts_contents:
  assumes "init_parts fs paths fps szs = Inr (fps', szs')"
  shows "concat (map (\<lambda>p. case fs p of None \<Rightarrow> [] | Some c \<Rightarrow> c) fps') =
         concat (map (\<lambda>p. case fs p of None \<Rightarrow> [] | Some c \<Rightarrow> c) (fps @ paths))"
  using assms
proof (induction paths arbitrary: fps szs)
  case Nil
  then show ?case by simp
next
  case (Cons path rest)
  from Cons.prems(1) obtain c where c: "fs path = Some c"
    by (auto split: option.splits)
  show ?case
  proof (cases "0 < int (length c)")
    case True
    with Cons.prems(1) c have "init_parts fs rest (fps @ [path]) (szs @ [int (length c)]) = Inr (fps', szs')"
      by (simp add: Let_def)
    from Cons.IH [OF this] show ?thesis by simp
  next
    case False
    with Cons.prems(1) c have "init_parts fs rest fps szs = Inr (fps', szs')"
      by (simp add: Let_def)
    from Cons.IH [OF this] show ?thesis using False c by simp
  qed
qed

lemma consistent_static:
  assumes "consistent fs self" and "filePaths s = filePaths self" and "sizes s = sizes self"
    and "cumsizes s = cumsizes self" and "currentFile s = currentFile self"
  shows "consistent fs s"
  using assms by (simp add: consistent_def)

lemma JoinedFile_init_consistent:
  assumes "JoinedFile_init fs paths = Inr self"
  shows "consistent fs self"
    and "joined_contents fs self = concat (map (\<lambda>p. case fs p of None \<Rightarrow> [] | Some c \<Rightarrow> c) paths)"
proof -
  from assms obtain fps szs where ip: "init_parts fs paths [] [] = Inr (fps, szs)"
    by (auto simp: JoinedFile_init_def split: sum.splits)
  from assms ip obtain cs where ic: "init_cumsizes [0] szs = Inr cs"
    by (auto simp: JoinedFile_init_def split: sum.splits)
  let ?s0 = "\<lparr>filePaths = fps, sizes = szs, fileobj = None, currentFile = None,
              cumsizes = cs, offset = 0\<rparr>"
  have sk: "seek fs ?s0 0 SEEK_SET = (self, Inr (0::int)) \<or>
            (\<exists>p. seek fs ?s0 0 SEEK_SET = (self, Inr p))"
    using assms ip ic by (auto simp: JoinedFile_init_def split: sum.splits prod.splits)
  have con0: "consistent fs ?s0"
    using init_parts_consistent [OF ip] ic by (simp add: consistent_def)
  have jc0: "joined_contents fs ?s0 =
      concat (map (\<lambda>p. case fs p of None \<Rightarrow> [] | Some c \<Rightarrow> c) paths)"
    using init_parts_contents [OF ip] by (simp add: joined_contents_def part_contents_def)
  show "consistent fs self"
    and "joined_contents fs self = concat (map (\<lambda>p. case fs p of None \<Rightarrow> [] | Some c \<Rightarrow> c) paths)"
  proof -
    have "consistent fs self \<and> joined_contents fs self = joined_contents fs ?s0"
    proof (cases "(0::int) < int (length (joined_contents fs ?s0))")
      case True
      from seek_set_inside [OF con0 _ True] obtain s where
        "seek fs ?s0 0 SEEK_SET = (s, Inr 0)" "consistent fs s"
        "joined_contents fs s = joined_contents fs ?s0"
        by auto
      with sk show ?thesis by auto
    next
      case False
      then have "(0::int) = int (length (joined_contents fs ?s0))" by simp
      from seek_set_end [OF con0 this] sk con0 show ?thesis by auto
    qed
    with jc0 show "consistent fs self"
      and "joined_contents fs self = concat (map (\<lambda>p. case fs p of None \<Rightarrow> [] | Some c \<Rightarrow> c) paths)"
      by simp_all
  qed
qed


theorem seek_read_slice_witness:
  "consistent fs_two jf_two_parts \<and> (0::int) \<le> 1 \<and>
   1 \<le> int (length (joined_contents fs_two jf_two_parts)) \<and> (0::int) \<le> 2 \<and>
   (\<exists>s s' s''. seek fs_two jf_two_parts 1 SEEK_SET = (s, Inr 1) \<and>
      read fs_two s 2 = Some (s', Inr ''12'') \<and>
      read fs_two s (- 1) = Some (s'', Inr ''123''))"
proof -
  have a: "consistent fs_two jf_two_parts"
    by (simp add: consistent_def jf_two_parts_def fs_two_def py_index_def)
  have c: "joined_contents fs_two jf_two_parts = ''0123''"
    by (simp add: joined_contents_def part_contents_def jf_two_parts_def fs_two_def)
  have b: "1 \<le> int (length (joined_contents fs_two jf_two_parts))"
    by (simp add: c)
  from seek_read_slice [OF a _ b, of 2] a b show ?thesis
    by (simp add: c)
qed

lemma init_two:
  "\<exists>self. JoinedFile_init fs_two [''/a'', ''/b''] = Inr self"
  by (simp add: JoinedFile_init_def fs_two_def py_index_def seek_def seek_move_def
      SEEK_SET_def SEEK_CUR_def SEEK_END_def seek_part_def findStencil_def bisect_left_def
      bisect_left_loop.simps seek_reopen_def py_open_def fo_seek_def Let_def)

section \<open>Properties of the index and of the mount\<close>

subsection \<open>getFileInfo follows the descent of the specification\<close>

lemma getFileInfo_loop_lookup:
  "lookup_node p (filter (\<lambda>name. name \<noteq> []) names) = Some q
     \<Longrightarrow> getFileInfo_loop p names = Inr (Some q)"
  by (induction names arbitrary: p) (auto split: node.splits option.splits if_splits)

lemma getFileInfo_record:
  assumes "lookup_node fileIndex (path_names path) = Some q"
    and "node_record q = Some fi"
  shows "getFileInfo fileIndex path False = Inr (Some (File fi))"
proof -
  have "getFileInfo_loop fileIndex (py_split CHR ''/'' (normpath path)) = Inr (Some q)"
    using assms(1) unfolding path_names_def by (rule getFileInfo_loop_lookup)
  then show ?thesis
    using assms(2)
    by (auto simp: getFileInfo_def node_record_def synthesized_dir_def
        split: node.splits option.splits)
qed

lemma getFileInfo_listing:
  assumes "lookup_node fileIndex (path_names path) = Some (Dir items)"
  shows "getFileInfo fileIndex path True = Inr (Some (Dir items))"
proof -
  have "getFileInfo_loop fileIndex (py_split CHR ''/'' (normpath path)) = Inr (Some (Dir items))"
    using assms unfolding path_names_def by (rule getFileInfo_loop_lookup)
  then show ?thesis by (simp add: getFileInfo_def)
qed

lemma getFileInfo_loop_absent:
  "lookup_node p (filter (\<lambda>name. name \<noteq> []) names) = None
     \<Longrightarrow> getFileInfo_loop p names = Inr None \<or> getFileInfo_loop p names = Inl TypeError"
  by (induction names arbitrary: p) (auto split: node.splits option.splits if_splits)

lemma write_bits_cleared: "(m AND NOT (146::int)) AND 146 = 0"
  by (simp add: bit_eq_iff bit_simps)

lemma write_bits: "S_IWUSR OR S_IWGRP OR S_IWOTH = 146"
  by (simp add: S_IWUSR_def S_IWGRP_def S_IWOTH_def)

lemma py_int_truncates:
  assumes "is_finite x"
  shows "\<exists>t. py_int x = Inr t \<and> \<bar>of_int t\<bar> \<le> \<bar>number_value x\<bar> \<and>
             \<bar>number_value x - of_int t\<bar> < 1"
proof (cases x)
  case (Integer n)
  then show ?thesis by (simp add: py_int_def number_value_def)
next
  case (Finite q)
  have "\<bar>of_int (if 0 \<le> q then \<lfloor>q\<rfloor> else \<lceil>q\<rceil>)\<bar> \<le> \<bar>q\<bar> \<and>
        \<bar>q - of_int (if 0 \<le> q then \<lfloor>q\<rfloor> else \<lceil>q\<rceil>)\<bar> < 1"
    by (auto; linarith)
  with Finite show ?thesis by (simp add: py_int_def number_value_def)
qed (use assms in \<open>simp_all add: is_finite_def\<close>)

subsection \<open>TarMount.getattr\<close>

text \<open>
  C4. For every path that leads to a node of the index, and the record \<open>fi\<close> of that node,
  when the \<open>mtime\<close> of the record is a finite number, \<open>getattr\<close> returns a stat dictionary:
  its \<open>st_mode\<close> is the mode of the record without the write bits \<open>0o222 = 146\<close>, so that
  \<open>st_mode & 0o222 = 0\<close>; \<open>st_nlink\<close> is 2; \<open>st_mtime\<close> is \<open>int(mtime)\<close>, an integer no larger
  in magnitude than \<open>mtime\<close> and less than 1 away from it; \<open>st_size\<close>, \<open>st_uid\<close> and
  \<open>st_gid\<close> are those of the record.
\<close>

theorem getattr_read_only_projection:
  assumes "lookup_node fileIndex (path_names path) = Some q"
    and "node_record q = Some fi"
    and "is_finite (fi_mtime fi)"
  shows "\<exists>st. getattr fileIndex path = Inr st \<and>
           st_mode st = fi_mode fi AND NOT 146 \<and>
           st_mode st AND 146 = 0 \<and>
           st_nlink st = 2 \<and>
           py_int (fi_mtime fi) = Inr (st_mtime st) \<and>
           \<bar>of_int (st_mtime st)\<bar> \<le> \<bar>number_value (fi_mtime fi)\<bar> \<and>
           \<bar>number_value (fi_mtime fi) - of_int (st_mtime st)\<bar> < 1 \<and>
           st_size st = fi_size fi \<and> st_uid st = fi_uid fi \<and> st_gid st = fi_gid fi"
proof -
  from py_int_truncates [OF assms(3)] obtain t where
    t: "py_int (fi_mtime fi) = Inr t" "\<bar>of_int t\<bar> \<le> \<bar>number_value (fi_mtime fi)\<bar>"
      "\<bar>number_value (fi_mtime fi) - of_int t\<bar> < 1"
    by blast
  let ?st = "\<lparr>st_size = fi_size fi, st_mtime = t,
               st_mode = fi_mode fi AND NOT 146, st_uid = fi_uid fi, st_gid = fi_gid fi,
               st_nlink = 2\<rparr>"
  have "getattr fileIndex path = Inr ?st"
    using getFileInfo_record [OF assms(1,2)] t(1) by (simp add: getattr_def write_bits)
  moreover have "st_mode ?st AND 146 = 0"
    using write_bits_cleared [of "fi_mode fi"] by simp
  ultimately show ?thesis
    using t by simp
qed

theorem getattr_read_only_projection_witness:
  "lookup_node index_with_link (path_names ''/l'') = Some (File link_to_x) \<and>
   node_record (File link_to_x) = Some link_to_x \<and>
   is_finite (fi_mtime link_to_x) \<and>
   getattr index_with_link ''/l'' =
     Inr \<lparr>st_size = 0, st_mtime = 1, st_mode = 41325, st_uid = 1000, st_gid = 100,
          st_nlink = 2\<rparr>"
proof -
  have a: "lookup_node index_with_link (path_names ''/l'') = Some (File link_to_x)"
    by code_simp
  have b: "node_record (File link_to_x) = Some link_to_x"
    by (simp add: node_record_def)
  have c: "is_finite (fi_mtime link_to_x)"
    by (simp add: link_to_x_def is_finite_def)
  from getattr_read_only_projection [OF a b c] obtain st where
    st: "getattr index_with_link ''/l'' = Inr st" "st_mode st = fi_mode link_to_x AND NOT 146"
      "st_nlink st = 2" "py_int (fi_mtime link_to_x) = Inr (st_mtime st)"
      "st_size st = fi_size link_to_x" "st_uid st = fi_uid link_to_x"
      "st_gid st = fi_gid link_to_x"
    by blast
  have "fi_mode link_to_x AND NOT 146 = 41325" by (simp add: link_to_x_def)
  moreover have "py_int (fi_mtime link_to_x) = Inr 1"
    by (simp add: link_to_x_def py_int_def floor_eq_iff)
  ultimately have "st = \<lparr>st_size = 0, st_mtime = 1, st_mode = 41325, st_uid = 1000, st_gid = 100,
          st_nlink = 2\<rparr>"
    using st by (simp add: link_to_x_def)
  with st(1) a b c show ?thesis by simp
qed

text \<open>
  The record of \<open>/l\<close> in the third example has the \<open>mtime\<close> \<open>nan\<close>. The path is in the
  index, and \<open>getattr\<close> returns no stat dictionary for it: \<open>int(mtime)\<close> raises
  \<open>ValueError\<close>.
\<close>

theorem getattr_without_time_counterexample:
  "lookup_node index_without_time (path_names ''/l'') = Some (File link_without_time) \<and>
   node_record (File link_without_time) = Some link_without_time \<and>
   fi_mtime link_without_time = NotANumber \<and>
   getattr index_without_time ''/l'' = Inl ValueError"
  by code_simp

text \<open>
  C9. The path \<open>/l/x\<close> is not in the index whose only entry is the link \<open>/l\<close> to \<open>x\<close>.
  \<open>getattr\<close> does not raise \<open>FuseOSError(EROFS)\<close> for it: the descent asks whether \<open>'x'\<close>
  is in the record of \<open>/l\<close>, a tuple with the field \<open>linkname = 'x'\<close>, and then indexes the
  tuple by that string, which raises \<open>TypeError\<close>.
\<close>

theorem getattr_below_link:
  "lookup_node index_with_link (path_names ''/l/x'') = None \<and>
   getattr index_with_link ''/l/x'' = Inl TypeError"
  by code_simp

subsection \<open>TarMount.readdir\<close>

text \<open>
  C5. In the index whose only entry is the link \<open>/l\<close>, the path \<open>/q\<close> is absent and the
  path \<open>/l\<close> is a file. For both, \<open>readdir\<close> yields \<open>'.'\<close> and \<open>'..'\<close> and then ends with
  \<open>AttributeError\<close>, from \<open>keys\<close> of \<open>None\<close> and of a \<open>FileInfo\<close>; it never raises
  \<open>FuseOSError(ENOENT)\<close>.
\<close>

theorem readdir_absent:
  "lookup_node index_with_link (path_names ''/q'') = None \<and>
   readdir index_with_link ''/q'' = ([''.'', ''..''], Some AttributeError) \<and>
   lookup_node index_with_link (path_names ''/l'') = Some (File link_to_x) \<and>
   readdir index_with_link ''/l'' = ([''.'', ''..''], Some AttributeError)"
  by code_simp

subsection \<open>TarMount.readlink\<close>

text \<open>
  C8. For every path that leads to a node of the index whose record has a \<open>linkname\<close> that
  does not begin with \<open>/\<close>, \<open>readlink\<close> returns that \<open>linkname\<close> as it is stored.
\<close>

theorem readlink_relative:
  assumes "lookup_node fileIndex (path_names path) = Some q"
    and "node_record q = Some fi"
    and "\<not> startswith (fi_linkname fi) ''/''"
  shows "readlink fileIndex path = Inr (fi_linkname fi)"
  using getFileInfo_record [OF assms(1,2)] assms(3) by (simp add: readlink_def)

theorem readlink_relative_witness:
  "lookup_node index_with_link (path_names ''/l'') = Some (File link_to_x) \<and>
   node_record (File link_to_x) = Some link_to_x \<and>
   \<not> startswith (fi_linkname link_to_x) ''/'' \<and>
   readlink index_with_link ''/l'' = Inr ''x''"
proof -
  have a: "lookup_node index_with_link (path_names ''/l'') = Some (File link_to_x)"
    by code_simp
  have b: "node_record (File link_to_x) = Some link_to_x"
    by (simp add: node_record_def)
  have c: "\<not> startswith (fi_linkname link_to_x) ''/''"
    by (simp add: link_to_x_def startswith_def)
  have "fi_linkname link_to_x = ''x''"
    by (simp add: link_to_x_def)
  with readlink_relative [OF a b c] a b c show ?thesis by simp
qed

text \<open>
  The record of \<open>/l\<close> in the second example has the \<open>linkname\<close> \<open>/etc/passwd\<close>, and
  \<open>readlink\<close> does not return it: it raises \<open>AttributeError\<close>.
\<close>

theorem readlink_absolute_counterexample:
  "lookup_node index_with_absolute_link (path_names ''/l'') = Some (File link_absolute) \<and>
   node_record (File link_absolute) = Some link_absolute \<and>
   fi_linkname link_absolute = ''/etc/passwd'' \<and>
   readlink index_with_absolute_link ''/l'' = Inl AttributeError"
  by code_simp

subsection \<open>IndexedTar.createIndex\<close>

text \<open>
  C7. The index of an archive whose only member is the block device \<open>sda\<close> with the
  permissions \<open>0o660 = 432\<close> stores the mode 432 for it. \<open>S_IFBLK\<close> is not part of that
  mode; with it the mode would be 25008.
\<close>

theorem block_device_mode:
  "isblk block_member \<and>
   createIndex False (Some [block_member]) =
     Inr (Dir [(''sda'', File \<lparr>fi_offset = 0, fi_size = 0, fi_mtime = Integer 0, fi_mode = 432,
        fi_type = BLKTYPE, fi_linkname = [], fi_uid = 0, fi_gid = 6, fi_istar = False\<rparr>)]) \<and>
   432 AND S_IFBLK = 0 \<and> 432 OR S_IFBLK = 25008"
  by code_simp

text \<open>
  C6. With recursive mounting, the archive \<open>foo.tar\<close> is mounted as the directory \<open>/foo\<close>,
  whose self-entry has \<open>istar\<close> set. The directory \<open>foo\<close> that follows finds \<open>/foo\<close> taken
  by it, and indexing ends there with \<open>TypeError\<close>: no index is built, so neither \<open>/foo\<close>
  nor \<open>/foo.tar\<close> exists afterwards.
\<close>

theorem clash_archive_index:
  "createIndex True (Some (take 1 clash_archive)) =
     Inr (Dir [(''foo'', Dir [(''x'', File (member_info (TarInfo ''x'' 420 REGTYPE 1024 3 (Integer 0) [] 0 0 []))),
        (''.'', File \<lparr>fi_offset = 512, fi_size = 10240, fi_mtime = Integer 0, fi_mode = 16877,
           fi_type = REGTYPE, fi_linkname = [], fi_uid = 0, fi_gid = 0, fi_istar = True\<rparr>)])]) \<and>
   createIndex True (Some clash_archive) = Inl TypeError"
  by code_simp

section \<open>Properties of the index file\<close>

subsection \<open>The length fields\<close>


lemma to_bytes4_length:
  "int (length s) < 2 ^ 32 \<Longrightarrow> \<exists>l. to_bytes4 (int (length s)) = Inr l"
  by (simp add: to_bytes4_def)

subsection \<open>One round of the loader\<close>






subsection \<open>Writing and reading back\<close>







end
